theory Spec2Isabelle
  imports Main "HOL-Library.Word"
begin

section \<open>Streaming endpoints of the file server (server/access-file.c)\<close>

text \<open>
  A shallow embedding of the HTTP endpoints \<^verbatim>\<open>/files\<close>, \<^verbatim>\<open>/blks\<close> of
  \<^verbatim>\<open>server/access-file.c\<close>: the content-type table, the Range parser, the header
  prelude of \<^verbatim>\<open>do_file\<close> and \<^verbatim>\<open>do_file_range\<close>, the two writer-driven file
  engines and the two dispatchers.

  C strings are \<open>string\<close>s (the terminating NUL is the end of the list), pointers
  into a string are offsets from its start, \<^verbatim>\<open>guint64\<close> is \<open>64 word\<close> where
  the code computes modulo \<open>2 ^ 64\<close>.
\<close>

subsection \<open>C library functions used by the Range parser\<close>

text \<open>\<^verbatim>\<open>strchr\<close>: offset of the first occurrence, \<open>None\<close> for the NULL pointer.\<close>

fun strchr :: "string \<Rightarrow> char \<Rightarrow> nat option" where
  "strchr [] c = None"
| "strchr (x # xs) c = (if x = c then Some 0 else map_option Suc (strchr xs c))"

definition isspace :: "char \<Rightarrow> bool" where
  "isspace c \<longleftrightarrow> c = CHR '' '' \<or> (9 \<le> (of_char c :: nat) \<and> (of_char c :: nat) \<le> 13)"

definition isdigit :: "char \<Rightarrow> bool" where
  "isdigit c \<longleftrightarrow> 48 \<le> (of_char c :: nat) \<and> (of_char c :: nat) \<le> 57"

definition digit_val :: "char \<Rightarrow> int" where
  "digit_val c = int (of_char c) - 48"

definition dec_val :: "string \<Rightarrow> int" where
  "dec_val ds = foldl (\<lambda>a c. 10 * a + digit_val c) 0 ds"

definition LLONG_MAX :: int where
  "LLONG_MAX = 2 ^ 63 - 1"

definition LLONG_MIN :: int where
  "LLONG_MIN = - (2 ^ 63)"

definition saturate :: "int \<Rightarrow> int" where
  "saturate v = max LLONG_MIN (min LLONG_MAX v)"

text \<open>
  \<^verbatim>\<open>strtoll (s, &end_ptr, 10)\<close>: white space, an optional sign, decimal digits; the
  value saturates at the bounds of \<^verbatim>\<open>long long\<close>. The result is the value and the
  offset of \<^verbatim>\<open>end_ptr\<close> in \<open>s\<close>; with no digit nothing is converted: the value is 0
  and \<^verbatim>\<open>end_ptr\<close> is \<open>s\<close> itself.
\<close>

definition strtoll :: "string \<Rightarrow> int \<times> nat" where
  "strtoll s =
     (let r1 = dropWhile isspace s;
          neg = (case r1 of [] \<Rightarrow> False | c # _ \<Rightarrow> c = CHR ''-'');
          r2 = (case r1 of [] \<Rightarrow> []
                | c # t \<Rightarrow> if c = CHR ''-'' \<or> c = CHR ''+'' then t else r1);
          ds = takeWhile isdigit r2
      in if ds = [] then (0, 0)
         else (saturate (if neg then - dec_val ds else dec_val ds),
               length s - length (dropWhile isdigit r2)))"

subsection \<open>The Range parser\<close>

datatype fault = Null_Deref

text \<open>
  \<^verbatim>\<open>parse_range_val\<close>. \<open>Inr None\<close> is the return value FALSE, \<open>Inr (Some (start, end))\<close>
  is TRUE with the two out-parameters. Where the header value has no \<^verbatim>\<open>'='\<close>,
  \<^verbatim>\<open>strchr\<close> returns NULL and \<^verbatim>\<open>g_strdup\<close> reads the string at address
  \<^verbatim>\<open>NULL + 1\<close>: the outcome \<open>Inl Null_Deref\<close>.
\<close>

definition range_numbers :: "string \<Rightarrow> nat \<Rightarrow> 64 word \<Rightarrow> (64 word \<times> 64 word) option" where
  "range_numbers tmp mpos fsize =
     (if mpos = 0 then
        \<comment> \<open>-num mode\<close>
        (let (v, end_ptr) = strtoll tmp; start = (word_of_int v :: 64 word)
         in if start = 0 then None
            else if end_ptr = length tmp then Some (start + fsize, fsize - 1)
            else None)
      else if mpos + 1 = length tmp then
        \<comment> \<open>num- mode\<close>
        (let (v, end_ptr) = strtoll tmp
         in if end_ptr = mpos then Some (word_of_int v, fsize - 1) else None)
      else
        \<comment> \<open>num-num mode\<close>
        (let (v, end_ptr) = strtoll tmp
         in if end_ptr = mpos then
              (let (v2, end_ptr2) = strtoll (drop (mpos + 1) tmp)
               in if mpos + 1 + end_ptr2 \<noteq> length tmp then None
                  else Some (word_of_int v, word_of_int v2))
            else None))"

definition parse_range_val :: "string \<Rightarrow> 64 word \<Rightarrow> fault + (64 word \<times> 64 word) option" where
  "parse_range_val byte_ranges fsize =
     (case strchr byte_ranges CHR ''='' of
        None \<Rightarrow> Inl Null_Deref
      | Some eq \<Rightarrow>
          (let tmp = drop (eq + 1) byte_ranges
           in case strchr tmp CHR ''-'' of
                None \<Rightarrow> Inr None
              | Some mpos \<Rightarrow>
                  (case range_numbers tmp mpos fsize of
                     None \<Rightarrow> Inr None
                   | Some (start, end0) \<Rightarrow>
                       (let end = (if end0 > fsize - 1 then fsize - 1 else end0)
                        in if start > end then Inr None else Inr (Some (start, end))))))"

subsection \<open>Strings, headers and decimal output\<close>

definition g_ascii_tolower :: "char \<Rightarrow> char" where
  "g_ascii_tolower c =
     (if 65 \<le> (of_char c :: nat) \<and> (of_char c :: nat) \<le> 90
      then (case c of Char b0 b1 b2 b3 b4 b5 b6 b7 \<Rightarrow> Char b0 b1 b2 b3 b4 True b6 b7)
      else c)"

text \<open>\<^verbatim>\<open>strcasecmp (a, b) == 0\<close>.\<close>

definition strcaseeq :: "string \<Rightarrow> string \<Rightarrow> bool" where
  "strcaseeq a b \<longleftrightarrow> map g_ascii_tolower a = map g_ascii_tolower b"

text \<open>\<^verbatim>\<open>strstr (hay, needle) != NULL\<close>.\<close>

fun strstr :: "string \<Rightarrow> string \<Rightarrow> bool" where
  "strstr [] needle = (needle = [])"
| "strstr (c # cs) needle = (take (length needle) (c # cs) = needle \<or> strstr cs needle)"

text \<open>\<^verbatim>\<open>strrchr\<close>: offset of the last occurrence.\<close>

fun strrchr :: "string \<Rightarrow> char \<Rightarrow> nat option" where
  "strrchr [] c = None"
| "strrchr (x # xs) c =
     (case strrchr xs c of
        Some i \<Rightarrow> Some (Suc i)
      | None \<Rightarrow> if x = c then Some 0 else None)"

text \<open>
  \<^verbatim>\<open>evhtp_kv_find\<close> (also called as \<^verbatim>\<open>evhtp_header_find\<close>): the value of the first
  header whose name matches, names compared by \<^verbatim>\<open>strcasecmp\<close>.
\<close>

fun evhtp_kv_find :: "(string \<times> string) list \<Rightarrow> string \<Rightarrow> string option" where
  "evhtp_kv_find [] key = None"
| "evhtp_kv_find ((k, v) # kvs) key =
     (if strcaseeq k key then Some v else evhtp_kv_find kvs key)"

fun show_nat :: "nat \<Rightarrow> string" where
  "show_nat n =
     (if n < 10 then [''0123456789'' ! n]
      else show_nat (n div 10) @ [''0123456789'' ! (n mod 10)])"

declare show_nat.simps [simp del]

text \<open>\<^verbatim>\<open>"%" G_GUINT64_FORMAT\<close> and \<^verbatim>\<open>"%" G_GINT64_FORMAT\<close> of a \<^verbatim>\<open>guint64\<close>.\<close>

definition show_u64 :: "64 word \<Rightarrow> string" where
  "show_u64 w = show_nat (unat w)"

definition show_i64 :: "64 word \<Rightarrow> string" where
  "show_i64 w = (if sint w < 0 then CHR ''-'' # show_nat (nat (- sint w)) else show_nat (nat (sint w)))"

text \<open>\<^verbatim>\<open>snprintf (buf, sz, ...)\<close> keeps at most \<open>sz - 1\<close> bytes of the formatted text.\<close>

definition snprintf :: "nat \<Rightarrow> string \<Rightarrow> string" where
  "snprintf sz s = take (sz - 1) s"

text \<open>\<^verbatim>\<open>g_strsplit (s, "/", 0)\<close>: the pieces between the delimiters; no piece for the empty string.\<close>

fun split_pieces :: "string \<Rightarrow> char \<Rightarrow> string list" where
  "split_pieces [] d = [[]]"
| "split_pieces (c # cs) d =
     (if c = d then [] # split_pieces cs d
      else (case split_pieces cs d of p # ps \<Rightarrow> (c # p) # ps | [] \<Rightarrow> [[c]]))"

definition g_strsplit :: "string \<Rightarrow> char \<Rightarrow> string list" where
  "g_strsplit s d = (if s = [] then [] else split_pieces s d)"

subsection \<open>Data model\<close>

text \<open>The file object \<^verbatim>\<open>Seafile\<close>; \<^verbatim>\<open>n_blocks\<close> is the length of the block list.\<close>

record seafile =
  file_size :: "64 word"
  blk_sha1s :: "string list"

definition n_blocks :: "seafile \<Rightarrow> nat" where
  "n_blocks f = length (blk_sha1s f)"

record seaf_repo =
  store_id :: string
  version :: int
  encrypted :: bool
  enc_version :: int

record web_access =
  wa_repo_id :: string
  wa_obj_id :: string
  wa_op :: string
  wa_username :: string

record crypt_key =
  key_hex :: string
  iv_hex :: string

record seafile_crypt =
  cr_version :: int
  cr_key :: string
  cr_iv :: string

datatype htp_method = htp_method_GET | htp_method_HEAD | htp_method_POST

record request =
  req_method :: htp_method
  req_path :: string
  headers_in :: "(string \<times> string) list"

text \<open>
  What a handler leaves on the request: the headers added to \<^verbatim>\<open>headers_out\<close> in
  order, the text printed to \<^verbatim>\<open>buffer_out\<close>, and the reply, \<open>Reply code\<close> for
  \<^verbatim>\<open>evhtp_send_reply\<close> (a complete response) and \<open>Reply_Start code\<close> for
  \<^verbatim>\<open>evhtp_send_reply_start\<close> (the body follows from an engine).
\<close>

datatype reply = Reply nat | Reply_Start nat

record response =
  headers_out :: "(string \<times> string) list"
  buffer_out :: string
  reply :: "reply option"

definition add_header :: "string \<Rightarrow> string \<Rightarrow> response \<Rightarrow> response" where
  "add_header k v r = r\<lparr>headers_out := headers_out r @ [(k, v)]\<rparr>"

definition evhtp_send_reply :: "nat \<Rightarrow> response \<Rightarrow> response" where
  "evhtp_send_reply code r = r\<lparr>reply := Some (Reply code)\<rparr>"

definition evhtp_send_reply_start :: "nat \<Rightarrow> response \<Rightarrow> response" where
  "evhtp_send_reply_start code r = r\<lparr>reply := Some (Reply_Start code)\<rparr>"

definition EVHTP_RES_OK :: nat where "EVHTP_RES_OK = 200"
definition EVHTP_RES_PARTIAL :: nat where "EVHTP_RES_PARTIAL = 206"
definition EVHTP_RES_NOTMOD :: nat where "EVHTP_RES_NOTMOD = 304"
definition EVHTP_RES_BADREQ :: nat where "EVHTP_RES_BADREQ = 400"
definition EVHTP_RES_FORBIDDEN :: nat where "EVHTP_RES_FORBIDDEN = 403"
definition EVHTP_RES_RANGENOTSC :: nat where "EVHTP_RES_RANGENOTSC = 416"
definition EVHTP_RES_SERVERR :: nat where "EVHTP_RES_SERVERR = 500"

subsection \<open>The block manager\<close>

text \<open>
  Modelled from the spec: the block manager (\<^verbatim>\<open>open\<close>, \<^verbatim>\<open>read\<close>, \<^verbatim>\<open>stat\<close>,
  \<^verbatim>\<open>stat_by_handle\<close>), whose code is not in this file. A stored block has its bytes;
  \<open>blk_readable\<close> is false for a block whose reads fail, \<open>blk_statable\<close> for one
  whose metadata cannot be read. An open handle holds the bytes not yet read.
  \<^verbatim>\<open>read (handle, buf, n)\<close> returns the next bytes, at most \<open>n\<close>, 0 at the end of the
  block and a negative number on error; the size in the metadata is a \<^verbatim>\<open>uint32_t\<close>.
\<close>

record stored_block =
  blk_data :: string
  blk_readable :: bool
  blk_statable :: bool

type_synonym block_store = "string \<Rightarrow> stored_block option"

record block_handle =
  h_rest :: string
  h_size :: nat
  h_readable :: bool
  h_statable :: bool

definition open_block :: "block_store \<Rightarrow> string \<Rightarrow> block_handle option" where
  "open_block store blk_id =
     map_option
       (\<lambda>b. \<lparr>h_rest = blk_data b, h_size = length (blk_data b),
             h_readable = blk_readable b, h_statable = blk_statable b\<rparr>)
       (store blk_id)"

definition read_block :: "block_handle \<Rightarrow> int \<Rightarrow> int \<times> string \<times> block_handle" where
  "read_block h len =
     (if h_readable h \<and> 0 \<le> len
      then (int (length (take (nat len) (h_rest h))), take (nat len) (h_rest h),
            h\<lparr>h_rest := drop (nat len) (h_rest h)\<rparr>)
      else (- 1, [], h))"

definition stat_block :: "block_store \<Rightarrow> string \<Rightarrow> nat option" where
  "stat_block store blk_id =
     (case store blk_id of
        None \<Rightarrow> None
      | Some b \<Rightarrow> if blk_statable b then Some (length (blk_data b) mod 2 ^ 32) else None)"

definition stat_block_by_handle :: "block_handle \<Rightarrow> nat option" where
  "stat_block_by_handle h = (if h_statable h then Some (h_size h mod 2 ^ 32) else None)"

definition BUFFER_SIZE :: int where
  "BUFFER_SIZE = 1024 * 64"

subsection \<open>Content types and the Firefox test\<close>

definition ftmap :: "(string \<times> string) list" where
  "ftmap =
     [(''txt'', ''text/plain''),
      (''doc'', ''application/vnd.ms-word''),
      (''docx'', ''application/vnd.openxmlformats-officedocument.wordprocessingml.document''),
      (''ppt'', ''application/vnd.ms-powerpoint''),
      (''pptx'', ''application/vnd.openxmlformats-officedocument.presentationml.presentation''),
      (''xls'', ''application/vnd.ms-excel''),
      (''xlsx'', ''application/vnd.openxmlformats-officedocument.spreadsheetml.sheet''),
      (''pdf'', ''application/pdf''),
      (''zip'', ''application/zip''),
      (''mp3'', ''audio/mp3''),
      (''mpeg'', ''video/mpeg''),
      (''mp4'', ''video/mp4''),
      (''jpg'', ''image/jpeg''),
      (''JPG'', ''image/jpeg''),
      (''jpeg'', ''image/jpeg''),
      (''JPEG'', ''image/jpeg''),
      (''png'', ''image/png''),
      (''PNG'', ''image/png''),
      (''gif'', ''image/gif''),
      (''GIF'', ''image/gif''),
      (''svg'', ''image/svg+xml''),
      (''SVG'', ''image/svg+xml'')]"

text \<open>The loop over \<^verbatim>\<open>ftmap\<close>: the type of the first entry whose suffix is equal.\<close>

fun ftmap_lookup :: "(string \<times> string) list \<Rightarrow> string \<Rightarrow> string option" where
  "ftmap_lookup [] p = None"
| "ftmap_lookup ((suffix, type) # rest) p =
     (if p = suffix then Some type else ftmap_lookup rest p)"

definition parse_content_type :: "string \<Rightarrow> string option" where
  "parse_content_type filename =
     (case strrchr filename CHR ''.'' of
        None \<Rightarrow> None
      | Some p \<Rightarrow> ftmap_lookup ftmap (drop (p + 1) filename))"

definition test_firefox :: "request \<Rightarrow> bool" where
  "test_firefox req =
     (case evhtp_kv_find (headers_in req) ''User-Agent'' of
        None \<Rightarrow> False
      | Some user_agent \<Rightarrow> strstr (map g_ascii_tolower user_agent) ''firefox'')"

text \<open>The \<^verbatim>\<open>Content-Type\<close> value of both \<^verbatim>\<open>do_file\<close> and \<^verbatim>\<open>do_file_range\<close>.\<close>

definition content_type_value :: "string option \<Rightarrow> string" where
  "content_type_value type =
     (case type of
        Some t \<Rightarrow> if strstr t ''text'' then t @ ''; '' @ ''charset=gbk'' else t
      | None \<Rightarrow> ''application/octet-stream'')"

text \<open>
  \<^verbatim>\<open>g_strcmp0 (type, "image/jpg") != 0\<close>, the test before the
  \<^verbatim>\<open>X-Content-Type-Options\<close> header; a NULL \<open>type\<close> differs from every string.
\<close>

definition not_image_jpg :: "string option \<Rightarrow> bool" where
  "not_image_jpg type \<longleftrightarrow> type \<noteq> Some ''image/jpg''"

subsection \<open>The decryption transform and the other collaborators\<close>

text \<open>
  The OpenSSL transform is a parameter: \<open>decrypt_init version key iv\<close> is
  \<^verbatim>\<open>seafile_decrypt_init\<close> (\<open>None\<close> for a negative return), \<open>decrypt_update\<close> is
  \<^verbatim>\<open>EVP_DecryptUpdate\<close> and \<open>decrypt_final\<close> is \<^verbatim>\<open>EVP_DecryptFinal_ex\<close> (\<open>None\<close>
  for the return value 0), each giving the plaintext it produced.
\<close>

record 'c cipher =
  decrypt_init :: "int \<Rightarrow> string \<Rightarrow> string \<Rightarrow> 'c option"
  decrypt_update :: "'c \<Rightarrow> string \<Rightarrow> ('c \<times> string) option"
  decrypt_final :: "'c \<Rightarrow> string option"

text \<open>
  The managers of the session \<^verbatim>\<open>seaf\<close>, the clock, \<^verbatim>\<open>hex_to_rawdata\<close> and the
  constant \<^verbatim>\<open>SEAF_PATH_MAX\<close> are parameters too: none of them is defined in this file.
\<close>

record env =
  query_access_token :: "string \<Rightarrow> web_access option"
  get_repo :: "string \<Rightarrow> seaf_repo option"
  get_decrypt_key :: "string \<Rightarrow> string \<Rightarrow> crypt_key option"
  object_exists :: "string \<Rightarrow> int \<Rightarrow> string \<Rightarrow> bool"
  get_seafile :: "string \<Rightarrow> int \<Rightarrow> string \<Rightarrow> seafile option"
  block_mgr :: "string \<Rightarrow> int \<Rightarrow> block_store"
  hex_to_rawdata :: "string \<Rightarrow> nat \<Rightarrow> string"
  http_date :: string
  SEAF_PATH_MAX :: nat

subsection \<open>Engine state\<close>

datatype stat_msg = Stat string string string "64 word"

text \<open>What a release function gives back, in the order of its calls.\<close>

datatype resource = Block_Handle | Cipher_Ctx | File_Object | Crypt_Struct

record 'c sendfile_data =
  sf_file :: seafile
  sf_crypt :: "seafile_crypt option"
  sf_enc_init :: bool
  sf_ctx :: "'c option"
  sf_handle :: "block_handle option"
  sf_remain :: nat
  sf_idx :: nat
  sf_store_id :: string
  sf_repo_version :: int
  sf_user :: string
  sf_token_type :: string

record range_data =
  fr_file :: seafile
  fr_handle :: "block_handle option"
  fr_blk_idx :: int
  fr_start_off :: "64 word"
  fr_range_remain :: "64 word"
  fr_store_id :: string
  fr_repo_version :: int
  fr_user :: string
  fr_token_type :: string

record sendblock_data =
  sb_block_id :: string
  sb_handle :: "block_handle option"
  sb_bsize :: nat
  sb_remain :: nat
  sb_store_id :: string
  sb_repo_version :: int
  sb_user :: string

definition free_sendfile_data :: "'c sendfile_data \<Rightarrow> resource list" where
  "free_sendfile_data d =
     (if sf_handle d \<noteq> None then [Block_Handle] else []) @
     (if sf_enc_init d then [Cipher_Ctx] else []) @
     [File_Object] @
     (if sf_crypt d \<noteq> None then [Crypt_Struct] else [])"

definition free_send_file_range_data :: "range_data \<Rightarrow> resource list" where
  "free_send_file_range_data d =
     (if fr_handle d \<noteq> None then [Block_Handle] else []) @ [File_Object]"

text \<open>
  One call of a write callback: it wrote bytes and kept its state (\<open>Sent\<close>), or wrote
  its last bytes, ended the reply, sent its statistics and released its state
  (\<open>Finished\<close>), or freed the connection and released its state (\<open>Failed\<close>).
  \<open>Crashed\<close> is an index outside the block list.
\<close>

datatype 'd step =
    Sent string 'd
  | Finished string "stat_msg list" "resource list"
  | Failed "resource list"
  | Crashed

subsection \<open>The whole-file engine: \<^verbatim>\<open>write_data_cb\<close>\<close>

text \<open>
  The block of \<^verbatim>\<open>if (!data->handle)\<close>: open the current block, read its size, and
  initialise the transform of an encrypted file. \<open>Inl\<close> is the jump to \<^verbatim>\<open>err\<close>, with
  what \<^verbatim>\<open>free_sendfile_data\<close> releases there.
\<close>

definition open_current ::
  "'c cipher \<Rightarrow> block_store \<Rightarrow> 'c sendfile_data \<Rightarrow> string
     \<Rightarrow> resource list + ('c sendfile_data \<times> block_handle)" where
  "open_current ciph store data blk_id =
     (case sf_handle data of
        Some handle \<Rightarrow> Inr (data, handle)
      | None \<Rightarrow>
          (case open_block store blk_id of
             None \<Rightarrow> Inl (free_sendfile_data data)
           | Some handle \<Rightarrow>
               (let d1 = data\<lparr>sf_handle := Some handle\<rparr>
                in case stat_block_by_handle handle of
                     None \<Rightarrow> Inl (free_sendfile_data d1)
                   | Some bsize \<Rightarrow>
                       (let d2 = d1\<lparr>sf_remain := bsize\<rparr>
                        in case sf_crypt d2 of
                             None \<Rightarrow> Inr (d2, handle)
                           | Some crypt \<Rightarrow>
                               (case decrypt_init ciph (cr_version crypt) (cr_key crypt) (cr_iv crypt) of
                                  None \<Rightarrow> Inl (free_sendfile_data d2)
                                | Some ctx \<Rightarrow>
                                    Inr (d2\<lparr>sf_ctx := Some ctx, sf_enc_init := True\<rparr>, handle))))))"

definition sendfile_stats :: "'c sendfile_data \<Rightarrow> stat_msg list" where
  "sendfile_stats data =
     (if sf_token_type data \<noteq> ''view''
      then [Stat (sf_store_id data) (sf_user data)
              (if sf_token_type data = ''download-link'' then ''link-file-download''
               else ''web-file-download'')
              (file_size (sf_file data))]
      else [])"

text \<open>The part after \<^verbatim>\<open>/* OK, we've got some data to send. */\<close>.\<close>

definition decrypt_and_write ::
  "'c cipher \<Rightarrow> 'c sendfile_data \<Rightarrow> string \<Rightarrow> 'c sendfile_data step" where
  "decrypt_and_write ciph data buf =
     (case sf_crypt data of
        None \<Rightarrow> Sent buf data
      | Some crypt \<Rightarrow>
          (case sf_ctx data of
             None \<Rightarrow> Crashed
           | Some ctx \<Rightarrow>
               (case decrypt_update ciph ctx buf of
                  None \<Rightarrow> Failed (free_sendfile_data data)
                | Some (ctx', dec_out) \<Rightarrow>
                    (let d1 = data\<lparr>sf_ctx := Some ctx'\<rparr>
                     in if sf_remain d1 = 0 then
                          (case decrypt_final ciph ctx' of
                             None \<Rightarrow> Failed (free_sendfile_data d1)
                           | Some fin \<Rightarrow> Sent (dec_out @ fin) d1)
                        else Sent dec_out d1))))"

text \<open>
  One pass from the label \<^verbatim>\<open>next\<close>: it ends the callback (\<open>Done\<close>) or reaches
  \<^verbatim>\<open>goto next\<close> with the index advanced (\<open>Next_Block\<close>). \<open>write_data_read\<close> is the
  part from the read of the block on.
\<close>

datatype 'd pass = Done "'d step" | Next_Block 'd

definition write_data_read ::
  "'c cipher \<Rightarrow> 'c sendfile_data \<Rightarrow> block_handle \<Rightarrow> 'c sendfile_data pass" where
  "write_data_read ciph d1 handle =
     (case read_block handle (1024 * 64) of
        (n, buf, handle') \<Rightarrow>
          (let d2 = d1\<lparr>sf_handle := Some handle',
                       sf_remain := nat ((int (sf_remain d1) - n) mod 2 ^ 64)\<rparr>
           in if n < 0 then Done (Failed (free_sendfile_data d2))
              else if n = 0 then
                (let d3 = d2\<lparr>sf_handle := None\<rparr>;
                     d4 = (if sf_crypt d3 \<noteq> None
                           then d3\<lparr>sf_ctx := None, sf_enc_init := False\<rparr> else d3)
                 in if sf_idx d4 + 1 = n_blocks (sf_file d4)
                    then Done (Finished [] (sendfile_stats d4) (free_sendfile_data d4))
                    else Next_Block (d4\<lparr>sf_idx := sf_idx d4 + 1\<rparr>))
              else Done (decrypt_and_write ciph d2 buf)))"

definition write_data_pass ::
  "'c cipher \<Rightarrow> block_store \<Rightarrow> 'c sendfile_data \<Rightarrow> 'c sendfile_data pass" where
  "write_data_pass ciph store data =
     (if n_blocks (sf_file data) \<le> sf_idx data then Done Crashed
      else
        (case open_current ciph store data (blk_sha1s (sf_file data) ! sf_idx data) of
           Inl rel \<Rightarrow> Done (Failed rel)
         | Inr (d1, handle) \<Rightarrow> write_data_read ciph d1 handle))"

lemma open_current_same:
  "open_current ciph store data blk_id = Inr (d1, handle) \<Longrightarrow>
     sf_file d1 = sf_file data \<and> sf_idx d1 = sf_idx data"
  by (auto simp: open_current_def Let_def split: option.splits)

lemma write_data_pass_next:
  "write_data_pass ciph store data = Next_Block d' \<Longrightarrow>
     sf_file d' = sf_file data \<and> sf_idx d' = sf_idx data + 1 \<and>
     sf_idx data < n_blocks (sf_file data)"
  by (auto simp: write_data_pass_def write_data_read_def Let_def dest!: open_current_same
           split: if_splits sum.splits prod.splits)

function write_data_cb ::
  "'c cipher \<Rightarrow> block_store \<Rightarrow> 'c sendfile_data \<Rightarrow> 'c sendfile_data step" where
  "write_data_cb ciph store data =
     (case write_data_pass ciph store data of
        Done s \<Rightarrow> s
      | Next_Block d' \<Rightarrow> write_data_cb ciph store d')"
  by pat_completeness auto
termination
  by (relation "measure (\<lambda>(ciph, store, data). n_blocks (sf_file data) - sf_idx data)")
     (auto dest!: write_data_pass_next)

declare write_data_cb.simps [simp del]

text \<open>
  The transport calls the write callback again each time it has drained what the last
  call wrote, until the callback restores the saved callbacks or frees the connection.
  \<open>run_sendfile\<close> is that sequence of calls for a client that stays connected: the
  bytes written in order, the statistics sent, what was released, and how it ended.
\<close>

datatype stream_end = Reply_End | Conn_Freed | Crash

record stream_result =
  st_body :: string
  st_stats :: "stat_msg list"
  st_released :: "resource list"
  st_end :: stream_end

definition step_result :: "string \<Rightarrow> stat_msg list \<Rightarrow> resource list \<Rightarrow> stream_end \<Rightarrow> stream_result" where
  "step_result bs sts rel e = \<lparr>st_body = bs, st_stats = sts, st_released = rel, st_end = e\<rparr>"

definition prepend_body :: "string \<Rightarrow> stream_result \<Rightarrow> stream_result" where
  "prepend_body bs r = r\<lparr>st_body := bs @ st_body r\<rparr>"

text \<open>The bytes of the current block that are still to be read.\<close>

definition sf_pending :: "block_store \<Rightarrow> 'c sendfile_data \<Rightarrow> nat" where
  "sf_pending store data =
     (case sf_handle data of
        Some h \<Rightarrow> length (h_rest h)
      | None \<Rightarrow>
          (case store (blk_sha1s (sf_file data) ! sf_idx data) of
             Some b \<Rightarrow> length (blk_data b)
           | None \<Rightarrow> 0))"

lemma open_current_pending:
  "open_current ciph store data blk_id = Inr (d1, handle) \<Longrightarrow>
     blk_id = blk_sha1s (sf_file data) ! sf_idx data \<Longrightarrow>
     length (h_rest handle) = sf_pending store data"
  by (auto simp: open_current_def sf_pending_def open_block_def Let_def split: option.splits)

lemma decrypt_and_write_sent:
  "decrypt_and_write ciph d buf = Sent bs d' \<Longrightarrow>
     sf_file d' = sf_file d \<and> sf_idx d' = sf_idx d \<and> sf_handle d' = sf_handle d"
  by (auto simp: decrypt_and_write_def Let_def split: option.splits if_splits)

lemma read_block_positive:
  "read_block h len = (n, buf, h') \<Longrightarrow> 0 < n \<Longrightarrow> length (h_rest h') < length (h_rest h)"
  by (auto simp: read_block_def split: if_splits)

lemma write_data_pass_sent:
  assumes "write_data_pass ciph store data = Done (Sent bs d')"
  shows "sf_file d' = sf_file data \<and> sf_idx d' = sf_idx data \<and>
         sf_pending store d' < sf_pending store data"
proof -
  from assms have in_range: "\<not> n_blocks (sf_file data) \<le> sf_idx data"
    by (auto simp: write_data_pass_def split: if_splits)
  from assms in_range obtain d1 handle where
    oc: "open_current ciph store data (blk_sha1s (sf_file data) ! sf_idx data) = Inr (d1, handle)"
    by (auto simp: write_data_pass_def split: sum.splits)
  obtain n buf handle' where rb: "read_block handle (1024 * 64) = (n, buf, handle')"
    by (cases "read_block handle (1024 * 64)") auto
  define d2 where "d2 = d1\<lparr>sf_handle := Some handle',
                             sf_remain := nat ((int (sf_remain d1) - n) mod 2 ^ 64)\<rparr>"
  from assms in_range oc rb have pos: "0 < n" and dw: "decrypt_and_write ciph d2 buf = Sent bs d'"
    by (auto simp: write_data_pass_def write_data_read_def Let_def d2_def split: if_splits)
  from decrypt_and_write_sent [OF dw] open_current_same [OF oc]
  have same: "sf_file d' = sf_file data" "sf_idx d' = sf_idx data" "sf_handle d' = Some handle'"
    by (simp_all add: d2_def)
  from read_block_positive [OF rb pos] open_current_pending [OF oc refl]
  have "length (h_rest handle') < sf_pending store data" by simp
  with same show ?thesis by (simp add: sf_pending_def)
qed

lemma write_data_cb_sent:
  "write_data_cb ciph store data = Sent bs d' \<Longrightarrow>
     sf_file d' = sf_file data \<and> sf_idx data < n_blocks (sf_file data) \<and>
     (sf_idx data < sf_idx d' \<or>
      sf_idx d' = sf_idx data \<and> sf_pending store d' < sf_pending store data)"
proof (induction ciph store data rule: write_data_cb.induct)
  case (1 ciph store data)
  show ?case
  proof (cases "write_data_pass ciph store data")
    case (Done s)
    with "1.prems" have sent: "write_data_pass ciph store data = Done (Sent bs d')"
      by (simp add: write_data_cb.simps)
    then have "\<not> n_blocks (sf_file data) \<le> sf_idx data"
      by (auto simp: write_data_pass_def split: if_splits)
    with write_data_pass_sent [OF sent] show ?thesis by simp
  next
    case (Next_Block d1)
    with "1.prems" have "write_data_cb ciph store d1 = Sent bs d'"
      by (simp add: write_data_cb.simps)
    from "1.IH" [OF Next_Block this] write_data_pass_next [OF Next_Block]
    show ?thesis by auto
  qed
qed

function run_sendfile :: "'c cipher \<Rightarrow> block_store \<Rightarrow> 'c sendfile_data \<Rightarrow> stream_result" where
  "run_sendfile ciph store data =
     (case write_data_cb ciph store data of
        Sent bs d' \<Rightarrow> prepend_body bs (run_sendfile ciph store d')
      | Finished bs sts rel \<Rightarrow> step_result bs sts rel Reply_End
      | Failed rel \<Rightarrow> step_result [] [] rel Conn_Freed
      | Crashed \<Rightarrow> step_result [] [] [] Crash)"
  by pat_completeness auto
termination
  by (relation "inv_image (less_than <*lex*> less_than)
        (\<lambda>(ciph, store, data). (n_blocks (sf_file data) - sf_idx data, sf_pending store data))")
     (auto dest!: write_data_cb_sent)

declare run_sendfile.simps [simp del]

subsection \<open>The byte-range engine: \<^verbatim>\<open>get_start_block_handle\<close> and \<^verbatim>\<open>write_file_range_cb\<close>\<close>

text \<open>
  The \<^verbatim>\<open>for\<close> loop of \<^verbatim>\<open>get_start_block_handle\<close> over the blocks from index \<open>i\<close> on:
  \<open>Some (i, tolsize)\<close> at the \<^verbatim>\<open>break\<close>, \<open>None\<close> where the function returns NULL
  (a block without metadata, or a start beyond the last block).
\<close>

fun start_block_loop ::
  "block_store \<Rightarrow> string list \<Rightarrow> 64 word \<Rightarrow> 64 word \<Rightarrow> nat \<Rightarrow> (nat \<times> 64 word) option" where
  "start_block_loop store [] start tolsize i = None"
| "start_block_loop store (blkid # rest) start tolsize i =
     (case stat_block store blkid of
        None \<Rightarrow> None
      | Some bsize \<Rightarrow>
          if start < tolsize + of_nat bsize then Some (i, tolsize)
          else start_block_loop store rest start (tolsize + of_nat bsize) (i + 1))"

text \<open>
  The length of the read that trims the offset is the \<^verbatim>\<open>guint64\<close> \<open>start - tolsize\<close>
  passed as an \<^verbatim>\<open>int\<close>; the \<^verbatim>\<open>int\<close> result is compared with it as a \<^verbatim>\<open>guint64\<close>.
\<close>

definition get_start_block_handle ::
  "block_store \<Rightarrow> seafile \<Rightarrow> 64 word \<Rightarrow> (block_handle \<times> nat) option" where
  "get_start_block_handle store file start =
     (case start_block_loop store (blk_sha1s file) start 0 0 of
        None \<Rightarrow> None
      | Some (i, tolsize) \<Rightarrow>
          (case open_block store (blk_sha1s file ! i) of
             None \<Rightarrow> None
           | Some handle \<Rightarrow>
               if start > tolsize then
                 (case read_block handle (sint (ucast (start - tolsize) :: 32 word)) of
                    (n, tmp, handle') \<Rightarrow>
                      if (word_of_int n :: 64 word) \<noteq> start - tolsize then None
                      else Some (handle', i))
               else Some (handle, i)))"

definition range_stats :: "range_data \<Rightarrow> stat_msg list" where
  "range_stats data =
     [Stat (fr_store_id data) (fr_user data)
        (if fr_token_type data = ''download-link'' then ''link-file-download''
         else ''web-file-download'')
        (file_size (fr_file data))]"

text \<open>One pass from the label \<^verbatim>\<open>next\<close> of \<^verbatim>\<open>write_file_range_cb\<close>.\<close>

definition write_file_range_pass :: "block_store \<Rightarrow> range_data \<Rightarrow> range_data pass" where
  "write_file_range_pass store data =
     (if fr_blk_idx data < 0 \<or> int (n_blocks (fr_file data)) \<le> fr_blk_idx data then Done Crashed
      else
        (case (case fr_handle data of
                 Some handle \<Rightarrow> Some handle
               | None \<Rightarrow> open_block store (blk_sha1s (fr_file data) ! nat (fr_blk_idx data))) of
           None \<Rightarrow> Done (Failed (free_send_file_range_data data))
         | Some handle \<Rightarrow>
             (let bsize = (if fr_range_remain data < word_of_int BUFFER_SIZE
                           then uint (fr_range_remain data) else BUFFER_SIZE)
              in case read_block handle bsize of
                   (n, buf, handle') \<Rightarrow>
                     (let d1 = data\<lparr>fr_handle := Some handle',
                                      fr_range_remain := fr_range_remain data - word_of_int n\<rparr>
                      in if n < 0 then Done (Failed (free_send_file_range_data d1))
                         else if n = 0 then
                           Next_Block (d1\<lparr>fr_handle := None, fr_blk_idx := fr_blk_idx d1 + 1\<rparr>)
                         else if fr_range_remain d1 = 0 then
                           Done (Finished buf
                                  (if fr_start_off d1 + word_of_int n \<ge> file_size (fr_file d1)
                                   then range_stats d1 else [])
                                  (free_send_file_range_data d1))
                         else Done (Sent buf d1)))))"

lemma write_file_range_pass_next:
  "write_file_range_pass store data = Next_Block d' \<Longrightarrow>
     fr_file d' = fr_file data \<and> fr_blk_idx d' = fr_blk_idx data + 1 \<and>
     0 \<le> fr_blk_idx data \<and> fr_blk_idx data < int (n_blocks (fr_file data))"
  by (auto simp: write_file_range_pass_def Let_def split: if_splits option.splits prod.splits)

function write_file_range_loop :: "block_store \<Rightarrow> range_data \<Rightarrow> range_data step" where
  "write_file_range_loop store data =
     (case write_file_range_pass store data of
        Done s \<Rightarrow> s
      | Next_Block d' \<Rightarrow> write_file_range_loop store d')"
  by pat_completeness auto
termination
  by (relation "measure (\<lambda>(store, data). nat (int (n_blocks (fr_file data)) - fr_blk_idx data))")
     (auto dest!: write_file_range_pass_next)

declare write_file_range_loop.simps [simp del]

definition write_file_range_cb :: "block_store \<Rightarrow> range_data \<Rightarrow> range_data step" where
  "write_file_range_cb store data =
     (if fr_blk_idx data = - 1 then
        (case get_start_block_handle store (fr_file data) (fr_start_off data) of
           None \<Rightarrow> Failed (free_send_file_range_data data)
         | Some (handle, i) \<Rightarrow>
             write_file_range_loop store (data\<lparr>fr_handle := Some handle, fr_blk_idx := int i\<rparr>))
      else write_file_range_loop store data)"

definition fr_pending :: "block_store \<Rightarrow> range_data \<Rightarrow> nat" where
  "fr_pending store data =
     (case fr_handle data of
        Some h \<Rightarrow> length (h_rest h)
      | None \<Rightarrow>
          (case store (blk_sha1s (fr_file data) ! nat (fr_blk_idx data)) of
             Some b \<Rightarrow> length (blk_data b)
           | None \<Rightarrow> 0))"

lemma write_file_range_pass_sent:
  assumes "write_file_range_pass store data = Done (Sent bs d')"
  shows "fr_file d' = fr_file data \<and> fr_blk_idx d' = fr_blk_idx data \<and>
         0 \<le> fr_blk_idx data \<and> fr_blk_idx data < int (n_blocks (fr_file data)) \<and>
         fr_pending store d' < fr_pending store data"
proof -
  from assms have in_range: "0 \<le> fr_blk_idx data" "fr_blk_idx data < int (n_blocks (fr_file data))"
    by (auto simp: write_file_range_pass_def split: if_splits)
  from assms in_range obtain handle where
    op: "(case fr_handle data of Some handle \<Rightarrow> Some handle
          | None \<Rightarrow> open_block store (blk_sha1s (fr_file data) ! nat (fr_blk_idx data))) = Some handle"
    by (auto simp: write_file_range_pass_def split: option.splits)
  then have len: "length (h_rest handle) = fr_pending store data"
    by (auto simp: fr_pending_def open_block_def split: option.splits)
  define bsize where "bsize = (if fr_range_remain data < word_of_int BUFFER_SIZE
                           then uint (fr_range_remain data) else BUFFER_SIZE)"
  obtain n buf handle' where rb: "read_block handle bsize = (n, buf, handle')"
    by (cases "read_block handle bsize") auto
  from assms in_range op rb have pos: "0 < n"
    and d': "d' = data\<lparr>fr_handle := Some handle',
                         fr_range_remain := fr_range_remain data - word_of_int n\<rparr>"
    unfolding write_file_range_pass_def Let_def bsize_def [symmetric]
    by (auto split: if_splits)
  from read_block_positive [OF rb pos] len in_range show ?thesis
    by (simp add: d' fr_pending_def)
qed

lemma write_file_range_loop_sent:
  "write_file_range_loop store data = Sent bs d' \<Longrightarrow>
     fr_file d' = fr_file data \<and>
     0 \<le> fr_blk_idx data \<and> fr_blk_idx data < int (n_blocks (fr_file data)) \<and>
     (fr_blk_idx data < fr_blk_idx d' \<or>
      fr_blk_idx d' = fr_blk_idx data \<and> fr_pending store d' < fr_pending store data)"
proof (induction store data rule: write_file_range_loop.induct)
  case (1 store data)
  show ?case
  proof (cases "write_file_range_pass store data")
    case (Done s)
    with "1.prems" have "write_file_range_pass store data = Done (Sent bs d')"
      by (simp add: write_file_range_loop.simps)
    from write_file_range_pass_sent [OF this] show ?thesis by simp
  next
    case (Next_Block d1)
    with "1.prems" have "write_file_range_loop store d1 = Sent bs d'"
      by (simp add: write_file_range_loop.simps)
    from "1.IH" [OF Next_Block this] write_file_range_pass_next [OF Next_Block]
    show ?thesis by auto
  qed
qed

lemma write_file_range_cb_sent:
  assumes "write_file_range_cb store data = Sent bs d'"
  shows "fr_file d' = fr_file data \<and> 0 \<le> fr_blk_idx d' \<and>
         (fr_blk_idx data \<noteq> - 1 \<longrightarrow>
            fr_blk_idx data < int (n_blocks (fr_file data)) \<and>
            (fr_blk_idx data < fr_blk_idx d' \<or>
             fr_blk_idx d' = fr_blk_idx data \<and> fr_pending store d' < fr_pending store data))"
proof (cases "fr_blk_idx data = - 1")
  case True
  with assms obtain handle i where
    "write_file_range_loop store (data\<lparr>fr_handle := Some handle, fr_blk_idx := int i\<rparr>) = Sent bs d'"
    by (auto simp: write_file_range_cb_def split: option.splits)
  from write_file_range_loop_sent [OF this] True show ?thesis by auto
next
  case False
  with assms have "write_file_range_loop store data = Sent bs d'"
    by (simp add: write_file_range_cb_def)
  from write_file_range_loop_sent [OF this] False show ?thesis by auto
qed

function run_file_range :: "block_store \<Rightarrow> range_data \<Rightarrow> stream_result" where
  "run_file_range store data =
     (case write_file_range_cb store data of
        Sent bs d' \<Rightarrow> prepend_body bs (run_file_range store d')
      | Finished bs sts rel \<Rightarrow> step_result bs sts rel Reply_End
      | Failed rel \<Rightarrow> step_result [] [] rel Conn_Freed
      | Crashed \<Rightarrow> step_result [] [] [] Crash)"
  by pat_completeness auto
termination
  by (relation "inv_image (less_than <*lex*> less_than <*lex*> less_than)
        (\<lambda>(store, data). (if fr_blk_idx data = - 1 then 1 else (0 :: nat),
                            nat (int (n_blocks (fr_file data)) - fr_blk_idx data),
                            fr_pending store data))")
     (auto dest!: write_file_range_cb_sent)

declare run_file_range.simps [simp del]

subsection \<open>The handlers: \<^verbatim>\<open>do_file\<close>, \<^verbatim>\<open>do_file_range\<close>, \<^verbatim>\<open>do_block\<close>\<close>

datatype 'c files_engine =
    File_Engine "'c sendfile_data"
  | Range_Engine range_data

text \<open>
  What a handler returns: its return code, the request's response so far, the engine it
  installed as the write callback, and \<open>h_held\<close>: what the call acquired, did not
  release and did not hand to an engine.
\<close>

record 'e handled =
  h_rc :: int
  h_resp :: response
  h_engine :: "'e option"
  h_held :: "resource list"

definition dquote :: char where "dquote = CHR 0x22"
definition squote :: char where "squote = CHR 0x27"
definition newline :: char where "newline = CHR 0x0A"

text \<open>The formats \<^verbatim>\<open>filename*="utf-8' '%s"\<close> and \<^verbatim>\<open>filename="%s"\<close>.\<close>

definition utf8_filename :: "string \<Rightarrow> string" where
  "utf8_filename name =
     ''filename*='' @ [dquote] @ ''utf-8'' @ [squote] @ '' '' @ [squote] @ name @ [dquote]"

definition plain_filename :: "string \<Rightarrow> string" where
  "plain_filename name = ''filename='' @ [dquote] @ name @ [dquote]"

definition new_crypt :: "env \<Rightarrow> seaf_repo \<Rightarrow> crypt_key option \<Rightarrow> seafile_crypt option" where
  "new_crypt e repo crypt_key =
     (case crypt_key of
        None \<Rightarrow> None
      | Some k \<Rightarrow>
          Some \<lparr>cr_version = enc_version repo,
                cr_key = hex_to_rawdata e (key_hex k) (if enc_version repo = 1 then 16 else 32),
                cr_iv = hex_to_rawdata e (iv_hex k) 16\<rparr>)"

definition do_file_disposition :: "env \<Rightarrow> request \<Rightarrow> string \<Rightarrow> string \<Rightarrow> string" where
  "do_file_disposition e req operation filename =
     (if operation = ''download'' \<or> operation = ''download-link''
      then snprintf (SEAF_PATH_MAX e) (''attachment;'' @ utf8_filename filename)
      else if test_firefox req
      then snprintf (SEAF_PATH_MAX e) (''inline;'' @ utf8_filename filename)
      else snprintf (SEAF_PATH_MAX e) (''inline;'' @ plain_filename filename))"

definition do_file_headers ::
  "env \<Rightarrow> request \<Rightarrow> seafile \<Rightarrow> string \<Rightarrow> string \<Rightarrow> response \<Rightarrow> response" where
  "do_file_headers e req file filename operation resp =
     (let type = parse_content_type filename;
          r1 = add_header ''Access-Control-Allow-Origin'' ''*'' resp;
          r2 = add_header ''Content-Security-Policy'' ''sandbox'' r1;
          r3 = add_header ''Content-Type'' (content_type_value type) r2;
          r4 = add_header ''Content-Length'' (snprintf 255 (show_i64 (file_size file))) r3;
          r5 = add_header ''Content-Disposition''
                 (do_file_disposition e req operation filename) r4
      in if not_image_jpg type then add_header ''X-Content-Type-Options'' ''nosniff'' r5
         else r5)"

definition do_file ::
  "env \<Rightarrow> request \<Rightarrow> response \<Rightarrow> seaf_repo \<Rightarrow> string \<Rightarrow> string \<Rightarrow> string
     \<Rightarrow> crypt_key option \<Rightarrow> string \<Rightarrow> 'c files_engine handled" where
  "do_file e req resp repo file_id filename operation crypt_key user =
     (case get_seafile e (store_id repo) (version repo) file_id of
        None \<Rightarrow> \<lparr>h_rc = - 1, h_resp = resp, h_engine = None, h_held = []\<rparr>
      | Some file \<Rightarrow>
          (let crypt = new_crypt e repo crypt_key;
               crypt_held = (if crypt = None then [] else [Crypt_Struct]);
               r = do_file_headers e req file filename operation resp
           in if req_method req = htp_method_HEAD then
                \<comment> \<open>HEAD Request\<close>
                \<lparr>h_rc = 0, h_resp = evhtp_send_reply EVHTP_RES_OK r, h_engine = None,
                 h_held = File_Object # crypt_held\<rparr>
              else if n_blocks file = 0 then
                \<comment> \<open>an empty file: \<^verbatim>\<open>seafile_unref (file)\<close>\<close>
                \<lparr>h_rc = 0, h_resp = evhtp_send_reply EVHTP_RES_OK r, h_engine = None,
                 h_held = crypt_held\<rparr>
              else
                \<lparr>h_rc = 0, h_resp = evhtp_send_reply_start EVHTP_RES_OK r,
                 h_engine = Some (File_Engine
                   \<lparr>sf_file = file, sf_crypt = crypt, sf_enc_init = False, sf_ctx = None,
                    sf_handle = None, sf_remain = 0, sf_idx = 0,
                    sf_store_id = take 36 (store_id repo), sf_repo_version = version repo,
                    sf_user = user, sf_token_type = operation\<rparr>),
                 h_held = []\<rparr>))"

definition set_resp_disposition :: "request \<Rightarrow> string \<Rightarrow> string \<Rightarrow> response \<Rightarrow> response" where
  "set_resp_disposition req operation filename resp =
     add_header ''Content-Disposition''
       (if operation = ''download'' then
          (if test_firefox req then ''attachment;'' @ utf8_filename filename
           else ''attachment;'' @ plain_filename filename)
        else
          (if test_firefox req then ''inline;'' @ utf8_filename filename
           else ''inline;'' @ plain_filename filename))
       resp"

definition do_file_range_headers ::
  "request \<Rightarrow> seafile \<Rightarrow> string \<Rightarrow> string \<Rightarrow> 64 word \<Rightarrow> 64 word \<Rightarrow> response \<Rightarrow> response" where
  "do_file_range_headers req file filename operation start end resp =
     (let r1 = add_header ''Accept-Ranges'' ''bytes'' resp;
          r2 = add_header ''Content-Security-Policy'' ''sandbox'' r1;
          type = parse_content_type filename;
          r3 = add_header ''Content-Type'' (content_type_value type) r2;
          r4 = add_header ''Content-Length'' (show_u64 (end - start + 1)) r3;
          r5 = add_header ''Content-Range''
                 (''bytes'' @ '' '' @ show_u64 start @ ''-'' @ show_u64 end @ ''/'' @
                  show_u64 (file_size file)) r4;
          r6 = set_resp_disposition req operation filename r5
      in if not_image_jpg type then add_header ''X-Content-Type-Options'' ''nosniff'' r6
         else r6)"

text \<open>
  \<^verbatim>\<open>do_file_range\<close>; \<open>Inl\<close> where \<^verbatim>\<open>parse_range_val\<close> does not return. On the 416
  path the size is read from the file object after \<^verbatim>\<open>seafile_unref\<close>; the model
  takes the value the object had.
\<close>

definition do_file_range ::
  "env \<Rightarrow> request \<Rightarrow> response \<Rightarrow> seaf_repo \<Rightarrow> string \<Rightarrow> string \<Rightarrow> string
     \<Rightarrow> string \<Rightarrow> string \<Rightarrow> fault + 'c files_engine handled" where
  "do_file_range e req resp repo file_id filename operation byte_ranges user =
     (case get_seafile e (store_id repo) (version repo) file_id of
        None \<Rightarrow> Inr \<lparr>h_rc = - 1, h_resp = resp, h_engine = None, h_held = []\<rparr>
      | Some file \<Rightarrow>
          if n_blocks file = 0 then
            Inr \<lparr>h_rc = 0, h_resp = evhtp_send_reply EVHTP_RES_OK resp, h_engine = None,
                 h_held = []\<rparr>
          else
            (case parse_range_val byte_ranges (file_size file) of
               Inl f \<Rightarrow> Inl f
             | Inr None \<Rightarrow>
                 Inr \<lparr>h_rc = 0,
                      h_resp = evhtp_send_reply EVHTP_RES_RANGENOTSC
                        (add_header ''Content-Range''
                           (''bytes */'' @ show_u64 (file_size file)) resp),
                      h_engine = None, h_held = []\<rparr>
             | Inr (Some (start, end)) \<Rightarrow>
                 Inr \<lparr>h_rc = 0,
                      h_resp = evhtp_send_reply_start EVHTP_RES_PARTIAL
                        (do_file_range_headers req file filename operation start end resp),
                      h_engine = Some (Range_Engine
                        \<lparr>fr_file = file, fr_handle = None, fr_blk_idx = - 1,
                         fr_start_off = start, fr_range_remain = end - start + 1,
                         fr_store_id = take 36 (store_id repo),
                         fr_repo_version = version repo,
                         fr_user = user, fr_token_type = operation\<rparr>),
                      h_held = []\<rparr>))"

text \<open>
  The search loop of \<^verbatim>\<open>do_block\<close>: the first block whose first 40 bytes are those of
  \<open>blk_id\<close> decides; it is found when its metadata can be read.
\<close>

fun find_block :: "block_store \<Rightarrow> string list \<Rightarrow> string \<Rightarrow> nat option" where
  "find_block store [] blk_id = None"
| "find_block store (b # bs) blk_id =
     (if take 40 b = take 40 blk_id then stat_block store blk_id
      else find_block store bs blk_id)"

definition do_block ::
  "env \<Rightarrow> request \<Rightarrow> response \<Rightarrow> seaf_repo \<Rightarrow> string \<Rightarrow> string \<Rightarrow> string \<Rightarrow> sendblock_data handled" where
  "do_block e req resp repo user file_id blk_id =
     (case get_seafile e (store_id repo) (version repo) file_id of
        None \<Rightarrow> \<lparr>h_rc = - 1, h_resp = resp, h_engine = None, h_held = []\<rparr>
      | Some file \<Rightarrow>
          (case find_block (block_mgr e (store_id repo) (version repo)) (blk_sha1s file) blk_id of
             None \<Rightarrow>
               \<comment> \<open>block not found.\<close>
               \<lparr>h_rc = 0, h_resp = evhtp_send_reply EVHTP_RES_BADREQ resp, h_engine = None,
                h_held = []\<rparr>
           | Some bsize \<Rightarrow>
               (let r1 = add_header ''Access-Control-Allow-Origin'' ''*'' resp;
                    r2 = add_header ''Content-Disposition''
                           (if test_firefox req
                            then snprintf (SEAF_PATH_MAX e) (''attachment;'' @ utf8_filename blk_id)
                            else snprintf (SEAF_PATH_MAX e) (''attachment;'' @ plain_filename blk_id))
                           r1;
                    r3 = add_header ''Content-Length'' (snprintf 255 (show_nat bsize)) r2
                in \<lparr>h_rc = 0, h_resp = evhtp_send_reply_start EVHTP_RES_OK r3,
                    h_engine = Some
                      \<lparr>sb_block_id = blk_id, sb_handle = None, sb_bsize = bsize, sb_remain = 0,
                       sb_store_id = take 36 (store_id repo), sb_repo_version = version repo,
                       sb_user = user\<rparr>,
                    h_held = []\<rparr>)))"

subsection \<open>The dispatchers: \<^verbatim>\<open>access_cb\<close> and \<^verbatim>\<open>access_blks_cb\<close>\<close>

definition can_use_cached_content :: "env \<Rightarrow> request \<Rightarrow> response \<Rightarrow> bool \<times> response" where
  "can_use_cached_content e req resp =
     (if evhtp_kv_find (headers_in req) ''If-Modified-Since'' \<noteq> None
      then (True, evhtp_send_reply EVHTP_RES_NOTMOD resp)
      else (False,
            add_header ''Cache-Control'' ''max-age=3600''
              (add_header ''Last-Modified'' (http_date e) resp)))"

text \<open>The label \<^verbatim>\<open>on_error\<close>: the error text and a newline, then the reply.\<close>

definition on_error :: "response \<Rightarrow> string \<Rightarrow> nat \<Rightarrow> 'e handled" where
  "on_error resp error error_code =
     \<lparr>h_rc = 0,
      h_resp = evhtp_send_reply error_code
                 (resp\<lparr>buffer_out := buffer_out resp @ error @ [newline]\<rparr>),
      h_engine = None, h_held = []\<rparr>"

definition no_response :: response where
  "no_response = \<lparr>headers_out = [], buffer_out = [], reply = None\<rparr>"

text \<open>
  \<^verbatim>\<open>access_cb\<close>, in two parts: the lines from the test of \<^verbatim>\<open>repo->encrypted\<close> on
  (\<open>access_cb_repo\<close>), and the prelude before them.
\<close>

definition files_reply :: "'e handled \<Rightarrow> 'e handled" where
  "files_reply h =
     (if h_rc h < 0
      then on_error (h_resp h) (''Internal server error'' @ [newline]) EVHTP_RES_SERVERR
      else h)"

definition access_cb_repo ::
  "env \<Rightarrow> request \<Rightarrow> response \<Rightarrow> seaf_repo \<Rightarrow> web_access \<Rightarrow> string \<Rightarrow> string option
     \<Rightarrow> fault + 'c files_engine handled" where
  "access_cb_repo e req r repo webaccess filename byte_ranges =
     (let repo_id = wa_repo_id webaccess; data = wa_obj_id webaccess;
          operation = wa_op webaccess; user = wa_username webaccess;
          key = (if encrypted repo then get_decrypt_key e repo_id user else None)
      in if encrypted repo \<and> key = None then
           Inr (on_error r ''Repo is encrypted. Please provide password to view it.''
                  EVHTP_RES_BADREQ)
         else if object_exists e (store_id repo) (version repo) data then
           (case (if encrypted repo then None else byte_ranges) of
              Some ranges \<Rightarrow>
                (case do_file_range e req r repo data filename operation ranges user of
                   Inl f \<Rightarrow> Inl f
                 | Inr h \<Rightarrow> Inr (files_reply h))
            | None \<Rightarrow> Inr (files_reply (do_file e req r repo data filename operation key user)))
         else Inr (on_error r (''Invalid file id'' @ [newline]) EVHTP_RES_BADREQ))"

definition access_cb :: "env \<Rightarrow> request \<Rightarrow> fault + 'c files_engine handled" where
  "access_cb e req =
     (let parts = g_strsplit (drop 1 (req_path req)) CHR ''/''
      in if length parts < 3 \<or> parts ! 0 \<noteq> ''files''
         then Inr (on_error no_response ''Invalid URL'' EVHTP_RES_BADREQ)
         else
           (case query_access_token e (parts ! 1) of
              None \<Rightarrow> Inr (on_error no_response ''Access token not found'' EVHTP_RES_FORBIDDEN)
            | Some webaccess \<Rightarrow>
                if wa_op webaccess \<noteq> ''view'' \<and> wa_op webaccess \<noteq> ''download'' \<and>
                   wa_op webaccess \<noteq> ''download-link''
                then Inr (on_error no_response ''Operation does not match access token.''
                            EVHTP_RES_FORBIDDEN)
                else
                  (case can_use_cached_content e req no_response of
                     (True, r) \<Rightarrow> Inr \<lparr>h_rc = 0, h_resp = r, h_engine = None, h_held = []\<rparr>
                   | (False, r) \<Rightarrow>
                       (case get_repo e (wa_repo_id webaccess) of
                          None \<Rightarrow> Inr (on_error r (''Bad repo id'' @ [newline]) EVHTP_RES_BADREQ)
                        | Some repo \<Rightarrow>
                            access_cb_repo e req r repo webaccess (parts ! 2)
                              (evhtp_kv_find (headers_in req) ''Range'')))))"

text \<open>
  \<^verbatim>\<open>access_blks_cb\<close>. Where the operation is not \<^verbatim>\<open>downloadblks\<close> the function goes
  on to the label \<^verbatim>\<open>success\<close> and returns: no reply is sent. Where \<^verbatim>\<open>do_block\<close>
  fails, \<^verbatim>\<open>error\<close> is still NULL and \<^verbatim>\<open>"%s\\n"\<close> prints it as \<^verbatim>\<open>(null)\<close>.
\<close>

definition access_blks_cb :: "env \<Rightarrow> request \<Rightarrow> sendblock_data handled" where
  "access_blks_cb e req =
     (let parts = g_strsplit (drop 1 (req_path req)) CHR ''/''
      in if length parts < 3 \<or> parts ! 0 \<noteq> ''blks''
         then on_error no_response ''Invalid URL'' EVHTP_RES_BADREQ
         else
           (let token = parts ! 1; blkid = parts ! 2
            in case query_access_token e token of
                 None \<Rightarrow> on_error no_response ''Access token not found'' EVHTP_RES_FORBIDDEN
               | Some webaccess \<Rightarrow>
                   (case can_use_cached_content e req no_response of
                      (True, r) \<Rightarrow> \<lparr>h_rc = 0, h_resp = r, h_engine = None, h_held = []\<rparr>
                    | (False, r) \<Rightarrow>
                        (let repo_id = wa_repo_id webaccess; obj = wa_obj_id webaccess;
                             operation = wa_op webaccess; user = wa_username webaccess
                         in case get_repo e repo_id of
                              None \<Rightarrow> on_error r (''Bad repo id'' @ [newline]) EVHTP_RES_BADREQ
                            | Some repo \<Rightarrow>
                                if \<not> object_exists e (store_id repo) (version repo) obj
                                then on_error r (''Invalid file id'' @ [newline]) EVHTP_RES_BADREQ
                                else if operation = ''downloadblks'' then
                                  (let h = do_block e req r repo user obj blkid
                                   in if h_rc h < 0
                                      then on_error (h_resp h) ''(null)'' EVHTP_RES_SERVERR
                                      else h)
                                else \<lparr>h_rc = 0, h_resp = r, h_engine = None, h_held = []\<rparr>))))"

subsection \<open>A request to \<^verbatim>\<open>/files\<close> from the dispatcher to the last byte\<close>

text \<open>
  What the client of one request receives and what the request leaves behind: the
  status and the headers of the reply, the body (the text of \<^verbatim>\<open>buffer_out\<close>, then
  what the installed engine writes), the statistics, how the stream ended, what the
  engine released and what the handler still held.
\<close>

record exchange =
  ex_status :: "nat option"
  ex_headers :: "(string \<times> string) list"
  ex_body :: string
  ex_stats :: "stat_msg list"
  ex_end :: stream_end
  ex_released :: "resource list"
  ex_held :: "resource list"

definition reply_code :: "reply option \<Rightarrow> nat option" where
  "reply_code r = (case r of None \<Rightarrow> None | Some (Reply c) \<Rightarrow> Some c | Some (Reply_Start c) \<Rightarrow> Some c)"

definition run_engine :: "'c cipher \<Rightarrow> env \<Rightarrow> 'c files_engine option \<Rightarrow> stream_result" where
  "run_engine ciph e eng =
     (case eng of
        None \<Rightarrow> step_result [] [] [] Reply_End
      | Some (File_Engine d) \<Rightarrow>
          run_sendfile ciph (block_mgr e (sf_store_id d) (sf_repo_version d)) d
      | Some (Range_Engine d) \<Rightarrow>
          run_file_range (block_mgr e (fr_store_id d) (fr_repo_version d)) d)"

definition exchange_of :: "'c cipher \<Rightarrow> env \<Rightarrow> 'c files_engine handled \<Rightarrow> exchange" where
  "exchange_of ciph e h =
     (let r = run_engine ciph e (h_engine h)
      in \<lparr>ex_status = reply_code (reply (h_resp h)),
          ex_headers = headers_out (h_resp h),
          ex_body = buffer_out (h_resp h) @ st_body r,
          ex_stats = st_stats r,
          ex_end = st_end r,
          ex_released = st_released r,
          ex_held = h_held h\<rparr>)"

definition serve_files :: "'c cipher \<Rightarrow> env \<Rightarrow> request \<Rightarrow> fault + exchange" where
  "serve_files ciph e req =
     (case access_cb e req of
        Inl f \<Rightarrow> Inl f
      | Inr h \<Rightarrow> Inr (exchange_of ciph e h))"

section \<open>The scenario file\<close>

text \<open>
  The file of the scenarios S1 to S5: three blocks of 100, 100 and 50 bytes in an
  unencrypted repository, reached by the tokens \<^verbatim>\<open>T\<close> (operation \<^verbatim>\<open>download\<close>),
  \<^verbatim>\<open>V\<close> (\<^verbatim>\<open>view\<close>) and \<^verbatim>\<open>L\<close> (\<^verbatim>\<open>download-link\<close>).
\<close>

definition blk1 :: string where "blk1 = ''1111111111111111111111111111111111111111''"
definition blk2 :: string where "blk2 = ''2222222222222222222222222222222222222222''"
definition blk3 :: string where "blk3 = ''3333333333333333333333333333333333333333''"

definition stored :: "string \<Rightarrow> stored_block" where
  "stored bytes = \<lparr>blk_data = bytes, blk_readable = True, blk_statable = True\<rparr>"

definition hello_store :: block_store where
  "hello_store blk_id =
     (if blk_id = blk1 then Some (stored (replicate 100 CHR ''a''))
      else if blk_id = blk2 then Some (stored (replicate 100 CHR ''b''))
      else if blk_id = blk3 then Some (stored (replicate 50 CHR ''c''))
      else None)"

definition hello_file :: seafile where
  "hello_file = \<lparr>file_size = 250, blk_sha1s = [blk1, blk2, blk3]\<rparr>"

definition hello_repo :: seaf_repo where
  "hello_repo = \<lparr>store_id = ''repo-1'', version = 1, encrypted = False, enc_version = 0\<rparr>"

definition hello_token :: "string \<Rightarrow> web_access option" where
  "hello_token token =
     (let access = (\<lambda>op. Some \<lparr>wa_repo_id = ''repo-1'', wa_obj_id = ''file-1'', wa_op = op,
                                 wa_username = ''alice''\<rparr>)
      in if token = ''T'' then access ''download''
         else if token = ''V'' then access ''view''
         else if token = ''L'' then access ''download-link''
         else None)"

definition hello_env :: env where
  "hello_env =
     \<lparr>query_access_token = hello_token,
      get_repo = (\<lambda>repo_id. if repo_id = ''repo-1'' then Some hello_repo else None),
      get_decrypt_key = (\<lambda>repo_id user. None),
      object_exists = (\<lambda>store_id version obj_id. obj_id = ''file-1''),
      get_seafile = (\<lambda>store_id version obj_id. if obj_id = ''file-1'' then Some hello_file else None),
      block_mgr = (\<lambda>store_id version. hello_store),
      hex_to_rawdata = (\<lambda>hex n. take n hex),
      http_date = ''Fri, 15 Mar 2024 10:00:00 GMT'',
      SEAF_PATH_MAX = 4096\<rparr>"

definition get_request :: "string \<Rightarrow> (string \<times> string) list \<Rightarrow> request" where
  "get_request path hdrs = \<lparr>req_method = htp_method_GET, req_path = path, headers_in = hdrs\<rparr>"

definition firefox_request :: request where
  "firefox_request =
     get_request ''/files/V/hello.txt''
       [(''User-Agent'', ''Mozilla/5.0 (X11; Linux x86_64; rv:124.0) Gecko/20100101 Firefox/124.0''),
        (''Range'', ''bytes=0-9'')]"

text \<open>A transform that always fails, for the requests that never decrypt.\<close>

definition no_cipher :: "unit cipher" where
  "no_cipher =
     \<lparr>decrypt_init = (\<lambda>version key iv. None), decrypt_update = (\<lambda>ctx buf. None),
      decrypt_final = (\<lambda>ctx. None)\<rparr>"

text \<open>The equations that evaluate the model on a concrete request.\<close>

lemmas string_defs = strcaseeq_def g_ascii_tolower_def snprintf_def show_i64_def show_u64_def
  show_nat.simps utf8_filename_def plain_filename_def dquote_def squote_def newline_def

lemmas status_defs = EVHTP_RES_OK_def EVHTP_RES_PARTIAL_def EVHTP_RES_NOTMOD_def
  EVHTP_RES_BADREQ_def EVHTP_RES_FORBIDDEN_def EVHTP_RES_RANGENOTSC_def EVHTP_RES_SERVERR_def

lemmas scenario_defs = hello_env_def hello_token_def hello_repo_def hello_file_def
  hello_store_def stored_def blk1_def blk2_def blk3_def get_request_def

lemmas handler_defs = serve_files_def access_cb_def access_cb_repo_def exchange_of_def
  run_engine_def g_strsplit_def can_use_cached_content_def no_response_def on_error_def
  files_reply_def do_file_def do_file_headers_def do_file_disposition_def new_crypt_def
  n_blocks_def add_header_def evhtp_send_reply_def evhtp_send_reply_start_def
  parse_content_type_def ftmap_def content_type_value_def not_image_jpg_def test_firefox_def
  reply_code_def step_result_def do_file_range_def do_file_range_headers_def
  set_resp_disposition_def

lemmas parser_defs = parse_range_val_def range_numbers_def strtoll_def isspace_def isdigit_def
  dec_val_def digit_val_def saturate_def LLONG_MAX_def LLONG_MIN_def

lemmas engine_defs = run_sendfile.simps write_data_cb.simps write_data_pass_def
  write_data_read_def open_current_def
  open_block_def read_block_def stat_block_by_handle_def stat_block_def decrypt_and_write_def
  sendfile_stats_def free_sendfile_data_def prepend_body_def Let_def
  run_file_range.simps write_file_range_cb_def write_file_range_loop.simps
  write_file_range_pass_def get_start_block_handle_def range_stats_def
  free_send_file_range_data_def BUFFER_SIZE_def

section \<open>Response headers\<close>

lemma evhtp_kv_find_append:
  "evhtp_kv_find (kvs @ [(k, v)]) key =
     (case evhtp_kv_find kvs key of
        Some x \<Rightarrow> Some x
      | None \<Rightarrow> if strcaseeq k key then Some v else None)"
  by (induction kvs) auto

lemma find_added_header:
  "evhtp_kv_find (headers_out (add_header k v r)) key =
     (case evhtp_kv_find (headers_out r) key of
        Some x \<Rightarrow> Some x
      | None \<Rightarrow> if strcaseeq k key then Some v else None)"
  by (simp add: add_header_def evhtp_kv_find_append)

lemma headers_out_send_reply [simp]:
  "headers_out (evhtp_send_reply code r) = headers_out r"
  "headers_out (evhtp_send_reply_start code r) = headers_out r"
  by (simp_all add: evhtp_send_reply_def evhtp_send_reply_start_def)

text \<open>The \<^verbatim>\<open>Content-Disposition\<close> header of a response.\<close>

definition disposition :: "response \<Rightarrow> string option" where
  "disposition r = evhtp_kv_find (headers_out r) ''Content-Disposition''"

lemma disposition_send_reply [simp]:
  "disposition (evhtp_send_reply code r) = disposition r"
  "disposition (evhtp_send_reply_start code r) = disposition r"
  by (simp_all add: disposition_def)

lemma do_file_headers_disposition:
  "disposition resp = None \<Longrightarrow>
   disposition (do_file_headers e req file filename operation resp) =
     Some (do_file_disposition e req operation filename)"
  by (simp add: disposition_def do_file_headers_def Let_def find_added_header strcaseeq_def
        g_ascii_tolower_def)

lemma do_file_range_headers_disposition:
  "disposition resp = None \<Longrightarrow>
   disposition (do_file_range_headers req file filename operation start end resp) =
     Some ((if operation = ''download'' then ''attachment;'' else ''inline;'') @
           (if test_firefox req then utf8_filename filename else plain_filename filename))"
  by (simp add: disposition_def do_file_range_headers_def set_resp_disposition_def Let_def
        find_added_header strcaseeq_def g_ascii_tolower_def)

lemma do_file_disposition_header:
  "get_seafile e (store_id repo) (version repo) file_id = Some file \<Longrightarrow>
   disposition resp = None \<Longrightarrow>
   disposition (h_resp (do_file e req resp repo file_id filename operation key user)) =
     Some (do_file_disposition e req operation filename)"
  by (simp add: do_file_def Let_def do_file_headers_disposition)

lemma do_file_range_disposition_header:
  "get_seafile e (store_id repo) (version repo) file_id = Some file \<Longrightarrow>
   disposition resp = None \<Longrightarrow> n_blocks file \<noteq> 0 \<Longrightarrow>
   parse_range_val ranges (file_size file) = Inr (Some (start, end)) \<Longrightarrow>
   map_sum id (\<lambda>h. disposition (h_resp h))
     (do_file_range e req resp repo file_id filename operation ranges user) =
   Inr (Some ((if operation = ''download'' then ''attachment;'' else ''inline;'') @
         (if test_firefox req then utf8_filename filename else plain_filename filename)))"
  by (simp add: do_file_range_def do_file_range_headers_disposition)

text \<open>
  Claim C6, as the code has it. In whole-file mode (\<^verbatim>\<open>do_file\<close>) the operations
  \<^verbatim>\<open>download\<close> and \<^verbatim>\<open>download-link\<close> give \<^verbatim>\<open>attachment\<close> with the file name always
  in the \<^verbatim>\<open>filename*="utf-8' '<name>"\<close> form, whatever the User-Agent; every other
  operation gives \<^verbatim>\<open>inline\<close>, with the \<^verbatim>\<open>filename*=\<close> form exactly when the
  lower-cased User-Agent contains \<^verbatim>\<open>firefox\<close> and the plain \<^verbatim>\<open>filename="<name>"\<close> form
  otherwise; the header value is cut to its first \<^verbatim>\<open>SEAF_PATH_MAX - 1\<close> bytes. In a
  byte-range response (\<^verbatim>\<open>do_file_range\<close>, for a file that has blocks and a range that
  the parser accepts) the value is not cut, the form of the file name follows the
  Firefox test for every operation, and the disposition is \<^verbatim>\<open>attachment\<close> for
  \<^verbatim>\<open>download\<close> and \<^verbatim>\<open>inline\<close> for the operations other than \<^verbatim>\<open>download\<close> and
  \<^verbatim>\<open>download-link\<close>; for \<^verbatim>\<open>download-link\<close> it is one of the two.
\<close>

theorem content_disposition_forms:
  assumes "get_seafile e (store_id repo) (version repo) file_id = Some file"
    and "disposition resp = None"
  shows "disposition (h_resp (do_file e req resp repo file_id filename operation key user)) =
           Some (snprintf (SEAF_PATH_MAX e)
                   (if operation = ''download'' \<or> operation = ''download-link''
                    then ''attachment;'' @ utf8_filename filename
                    else if test_firefox req then ''inline;'' @ utf8_filename filename
                    else ''inline;'' @ plain_filename filename)) \<and>
         (n_blocks file \<noteq> 0 \<and> parse_range_val ranges (file_size file) = Inr (Some (start, end)) \<longrightarrow>
            (\<exists>d. map_sum id (\<lambda>h. disposition (h_resp h))
                   (do_file_range e req resp repo file_id filename operation ranges user) =
                  Inr (Some (d @ (if test_firefox req then utf8_filename filename
                                  else plain_filename filename))) \<and>
                 (d = ''attachment;'' \<or> d = ''inline;'') \<and>
                 (operation = ''download'' \<longrightarrow> d = ''attachment;'') \<and>
                 (operation \<noteq> ''download'' \<and> operation \<noteq> ''download-link'' \<longrightarrow>
                    d = ''inline;'')))"
proof -
  have whole: "disposition (h_resp (do_file e req resp repo file_id filename operation key user)) =
      Some (snprintf (SEAF_PATH_MAX e)
              (if operation = ''download'' \<or> operation = ''download-link''
               then ''attachment;'' @ utf8_filename filename
               else if test_firefox req then ''inline;'' @ utf8_filename filename
               else ''inline;'' @ plain_filename filename))"
    by (simp add: do_file_disposition_header [OF assms] do_file_disposition_def)
  have "\<exists>d. map_sum id (\<lambda>h. disposition (h_resp h))
                (do_file_range e req resp repo file_id filename operation ranges user) =
               Inr (Some (d @ (if test_firefox req then utf8_filename filename
                               else plain_filename filename))) \<and>
              (d = ''attachment;'' \<or> d = ''inline;'') \<and>
              (operation = ''download'' \<longrightarrow> d = ''attachment;'') \<and>
              (operation \<noteq> ''download'' \<and> operation \<noteq> ''download-link'' \<longrightarrow> d = ''inline;'')"
    if "n_blocks file \<noteq> 0"
      and "parse_range_val ranges (file_size file) = Inr (Some (start, end))"
  proof -
    let ?d = "if operation = ''download'' then ''attachment;'' else ''inline;''"
    have "map_sum id (\<lambda>h. disposition (h_resp h))
            (do_file_range e req resp repo file_id filename operation ranges user) =
          Inr (Some (?d @ (if test_firefox req then utf8_filename filename
                           else plain_filename filename)))"
      by (rule do_file_range_disposition_header [OF assms that])
    moreover have "?d = ''attachment;'' \<or> ?d = ''inline;''" by simp
    moreover have "operation = ''download'' \<longrightarrow> ?d = ''attachment;''" by simp
    moreover have "operation \<noteq> ''download'' \<and> operation \<noteq> ''download-link'' \<longrightarrow> ?d = ''inline;''"
      by simp
    ultimately show ?thesis by blast
  qed
  with whole show ?thesis by blast
qed

theorem content_disposition_forms_witness:
  "test_firefox firefox_request \<and>
   disposition (h_resp (do_file hello_env firefox_request no_response hello_repo ''file-1''
      ''hello.txt'' ''view'' None ''alice'' :: unit files_engine handled)) =
     Some (''inline;'' @ utf8_filename ''hello.txt'') \<and>
   map_sum id (\<lambda>h. disposition (h_resp h))
     (do_file_range hello_env firefox_request no_response hello_repo ''file-1''
        ''hello.txt'' ''view'' ''bytes=0-9'' ''alice'' :: fault + unit files_engine handled) =
     Inr (Some (''inline;'' @ utf8_filename ''hello.txt'')) \<and>
   map_sum id (\<lambda>h. disposition (h_resp h))
     (do_file_range hello_env firefox_request no_response hello_repo ''file-1''
        ''hello.txt'' ''download'' ''bytes=0-9'' ''alice'' :: fault + unit files_engine handled) =
     Inr (Some (''attachment;'' @ utf8_filename ''hello.txt'')) \<and>
   (\<exists>d. map_sum id (\<lambda>h. disposition (h_resp h))
          (do_file_range hello_env firefox_request no_response hello_repo ''file-1''
             ''hello.txt'' ''download-link'' ''bytes=0-9'' ''alice''
           :: fault + unit files_engine handled) =
         Inr (Some (d @ utf8_filename ''hello.txt'')))"
proof -
  have fl: "get_seafile hello_env (store_id hello_repo) (version hello_repo) ''file-1'' = Some hello_file"
    by (simp add: hello_env_def)
  have fresh: "disposition no_response = None"
    by (simp add: disposition_def no_response_def)
  have ff: "test_firefox firefox_request"
    by (simp add: test_firefox_def firefox_request_def get_request_def strcaseeq_def
          g_ascii_tolower_def)
  have fits: "snprintf (SEAF_PATH_MAX hello_env) (''inline;'' @ utf8_filename ''hello.txt'') =
              ''inline;'' @ utf8_filename ''hello.txt''"
    by (simp add: hello_env_def snprintf_def utf8_filename_def)
  have rng: "n_blocks hello_file \<noteq> 0 \<and>
             parse_range_val ''bytes=0-9'' (file_size hello_file) = Inr (Some (0, 9))"
    by (simp add: n_blocks_def hello_file_def parser_defs)
  have "''view'' \<noteq> ''download'' \<and> ''view'' \<noteq> ''download-link''" by simp
  with content_disposition_forms [OF fl fresh, of firefox_request "''hello.txt''" "''view''" None
      "''alice''" "''bytes=0-9''" 0 9] ff fits rng
  have view: "disposition (h_resp (do_file hello_env firefox_request no_response hello_repo
        ''file-1'' ''hello.txt'' ''view'' None ''alice'' :: unit files_engine handled)) =
      Some (''inline;'' @ utf8_filename ''hello.txt'') \<and>
    map_sum id (\<lambda>h. disposition (h_resp h))
      (do_file_range hello_env firefox_request no_response hello_repo ''file-1''
         ''hello.txt'' ''view'' ''bytes=0-9'' ''alice'' :: fault + unit files_engine handled) =
      Inr (Some (''inline;'' @ utf8_filename ''hello.txt''))"
    by (auto simp del: map_sum.simps)
  from content_disposition_forms [OF fl fresh, of firefox_request "''hello.txt''"
      "''download''" None "''alice''" "''bytes=0-9''" 0 9] ff rng
  have download: "map_sum id (\<lambda>h. disposition (h_resp h))
      (do_file_range hello_env firefox_request no_response hello_repo ''file-1''
         ''hello.txt'' ''download'' ''bytes=0-9'' ''alice'' :: fault + unit files_engine handled) =
      Inr (Some (''attachment;'' @ utf8_filename ''hello.txt''))"
    by (auto simp del: map_sum.simps)
  from content_disposition_forms [OF fl fresh, of firefox_request "''hello.txt''"
      "''download-link''" None "''alice''" "''bytes=0-9''" 0 9] ff rng
  have "\<exists>d. map_sum id (\<lambda>h. disposition (h_resp h))
          (do_file_range hello_env firefox_request no_response hello_repo ''file-1''
             ''hello.txt'' ''download-link'' ''bytes=0-9'' ''alice''
           :: fault + unit files_engine handled) =
         Inr (Some (d @ utf8_filename ''hello.txt''))"
    by (auto simp del: map_sum.simps)
  with ff view download show ?thesis by blast
qed

text \<open>
  Claim C6 as stated fails in whole-file mode: a \<^verbatim>\<open>download\<close> of \<^verbatim>\<open>hello.txt\<close> by a
  client whose User-Agent has no \<^verbatim>\<open>firefox\<close> gets the \<^verbatim>\<open>filename*=\<close> form, not the
  plain one.
\<close>

theorem download_disposition_counterexample:
  "\<not> test_firefox (get_request ''/files/T/hello.txt'' [(''User-Agent'', ''curl/8.5.0'')]) \<and>
   map_sum id (\<lambda>x. evhtp_kv_find (ex_headers x) ''Content-Disposition'')
     (serve_files no_cipher hello_env
        (get_request ''/files/T/hello.txt'' [(''User-Agent'', ''curl/8.5.0'')]))
   = Inr (Some (''attachment;'' @ utf8_filename ''hello.txt'')) \<and>
   ''attachment;'' @ utf8_filename ''hello.txt'' \<noteq> ''attachment;'' @ plain_filename ''hello.txt''"
  by (simp add: handler_defs scenario_defs string_defs status_defs engine_defs)

text \<open>
  Claim C7 (the header \<^verbatim>\<open>X-Content-Type-Options: nosniff\<close> is absent from a JPEG
  response) against the code: the table gives \<^verbatim>\<open>image/jpeg\<close> for \<^verbatim>\<open>photo.jpg\<close>, the
  test before the header compares with \<^verbatim>\<open>image/jpg\<close>, and the response carries the
  header.
\<close>

theorem jpeg_reply_has_nosniff:
  "map_sum id (\<lambda>x. (ex_status x, evhtp_kv_find (ex_headers x) ''Content-Type'',
                     evhtp_kv_find (ex_headers x) ''X-Content-Type-Options''))
     (serve_files ciph hello_env (get_request ''/files/V/photo.jpg'' []))
   = Inr (Some 200, Some ''image/jpeg'', Some ''nosniff'')"
  by (simp add: handler_defs scenario_defs string_defs status_defs engine_defs)

section \<open>The whole-file engine\<close>

text \<open>
  A file whose blocks are all in the store, can be read and have metadata, each shorter
  than \<open>2 ^ 31\<close> bytes (the block manager's lengths are \<^verbatim>\<open>int\<close>s), and the bytes of
  the file: its blocks one after the other.
\<close>

definition block_ok :: "block_store \<Rightarrow> string \<Rightarrow> bool" where
  "block_ok store blk_id =
     (case store blk_id of
        None \<Rightarrow> False
      | Some b \<Rightarrow> blk_readable b \<and> blk_statable b \<and> length (blk_data b) < 2 ^ 31)"

definition blocks_ok :: "block_store \<Rightarrow> seafile \<Rightarrow> bool" where
  "blocks_ok store file = list_all (block_ok store) (blk_sha1s file)"

definition block_bytes :: "block_store \<Rightarrow> string \<Rightarrow> string" where
  "block_bytes store blk_id = (case store blk_id of None \<Rightarrow> [] | Some b \<Rightarrow> blk_data b)"

definition file_bytes :: "block_store \<Rightarrow> seafile \<Rightarrow> string" where
  "file_bytes store file = concat (map (block_bytes store) (blk_sha1s file))"

text \<open>
  The plaintext of an encrypted file as the specification describes it: block by block
  with the same key and iv, each block initialised, updated with its pieces of up to
  64 KiB in order, and finalised after its last piece; \<open>None\<close> where the transform fails.
\<close>

function dec_chunks :: "'c cipher \<Rightarrow> 'c \<Rightarrow> string \<Rightarrow> string option" where
  "dec_chunks ciph ctx bytes =
     (if bytes = [] then Some []
      else
        (case decrypt_update ciph ctx (take 65536 bytes) of
           None \<Rightarrow> None
         | Some (ctx', out) \<Rightarrow>
             if drop 65536 bytes = [] then map_option (\<lambda>fin. out @ fin) (decrypt_final ciph ctx')
             else map_option (\<lambda>more. out @ more) (dec_chunks ciph ctx' (drop 65536 bytes))))"
  by pat_completeness auto
termination
  by (relation "measure (\<lambda>(ciph, ctx, bytes). length bytes)") auto

declare dec_chunks.simps [simp del]

definition decrypt_block :: "'c cipher \<Rightarrow> seafile_crypt \<Rightarrow> string \<Rightarrow> string option" where
  "decrypt_block ciph crypt bytes =
     (case decrypt_init ciph (cr_version crypt) (cr_key crypt) (cr_iv crypt) of
        None \<Rightarrow> None
      | Some ctx \<Rightarrow> dec_chunks ciph ctx bytes)"

text \<open>What the engine is to send for a block, with and without a key.\<close>

definition plain_block :: "'c cipher \<Rightarrow> seafile_crypt option \<Rightarrow> string \<Rightarrow> string option" where
  "plain_block ciph crypt bytes =
     (case crypt of None \<Rightarrow> Some bytes | Some cr \<Rightarrow> decrypt_block ciph cr bytes)"

fun plain_blocks :: "'c cipher \<Rightarrow> seafile_crypt option \<Rightarrow> string list \<Rightarrow> string option" where
  "plain_blocks ciph crypt [] = Some []"
| "plain_blocks ciph crypt (b # bs) =
     (case plain_block ciph crypt b of
        None \<Rightarrow> None
      | Some p \<Rightarrow> map_option (\<lambda>rest. p @ rest) (plain_blocks ciph crypt bs))"

text \<open>
  For a state of the engine: what is still to be sent (\<open>sf_expected\<close>), the facts that
  hold between two calls of the callback (\<open>sf_inv\<close>), and the fields that never change
  (\<open>sf_same\<close>).
\<close>

definition later_blocks :: "block_store \<Rightarrow> 'c sendfile_data \<Rightarrow> nat \<Rightarrow> string list" where
  "later_blocks store d i = map (block_bytes store) (drop i (blk_sha1s (sf_file d)))"

definition sf_expected :: "'c cipher \<Rightarrow> block_store \<Rightarrow> 'c sendfile_data \<Rightarrow> string option" where
  "sf_expected ciph store d =
     (case sf_handle d of
        None \<Rightarrow> plain_blocks ciph (sf_crypt d) (later_blocks store d (sf_idx d))
      | Some h \<Rightarrow>
          (case (case sf_crypt d of
                   None \<Rightarrow> Some (h_rest h)
                 | Some cr \<Rightarrow>
                     (case sf_ctx d of None \<Rightarrow> None | Some c \<Rightarrow> dec_chunks ciph c (h_rest h))) of
             None \<Rightarrow> None
           | Some p \<Rightarrow>
               map_option (\<lambda>rest. p @ rest)
                 (plain_blocks ciph (sf_crypt d) (later_blocks store d (sf_idx d + 1)))))"

definition sf_inv :: "block_store \<Rightarrow> 'c sendfile_data \<Rightarrow> bool" where
  "sf_inv store d \<longleftrightarrow>
     sf_idx d < n_blocks (sf_file d) \<and> blocks_ok store (sf_file d) \<and>
     (sf_crypt d = None \<longrightarrow> \<not> sf_enc_init d) \<and>
     (case sf_handle d of
        None \<Rightarrow> True
      | Some h \<Rightarrow> h_readable h \<and> length (h_rest h) < 2 ^ 31 \<and> sf_remain d = length (h_rest h))"

definition sf_same :: "'c sendfile_data \<Rightarrow> 'c sendfile_data \<Rightarrow> bool" where
  "sf_same d d' \<longleftrightarrow>
     sf_file d' = sf_file d \<and> sf_crypt d' = sf_crypt d \<and> sf_token_type d' = sf_token_type d \<and>
     sf_user d' = sf_user d \<and> sf_store_id d' = sf_store_id d"

lemma later_blocks_Cons:
  "i < n_blocks (sf_file d) \<Longrightarrow>
   later_blocks store d i = block_bytes store (blk_sha1s (sf_file d) ! i) # later_blocks store d (i + 1)"
  by (simp add: later_blocks_def n_blocks_def Cons_nth_drop_Suc [symmetric])

lemma blocks_ok_nth:
  "blocks_ok store f \<Longrightarrow> i < n_blocks f \<Longrightarrow> block_ok store (blk_sha1s f ! i)"
  by (simp add: blocks_ok_def n_blocks_def list_all_length)

lemma open_current_ok:
  assumes inv: "sf_inv store d" and ex: "sf_expected ciph store d = Some out"
  shows "\<exists>d1 h. open_current ciph store d (blk_sha1s (sf_file d) ! sf_idx d) = Inr (d1, h) \<and>
           sf_handle d1 = Some h \<and> sf_inv store d1 \<and> sf_expected ciph store d1 = Some out \<and>
           sf_same d d1 \<and> sf_idx d1 = sf_idx d \<and>
           (sf_crypt d \<noteq> None \<longrightarrow> sf_ctx d1 \<noteq> None)"
proof (cases "sf_handle d")
  case (Some h)
  with inv ex show ?thesis
    by (auto simp: open_current_def sf_same_def sf_expected_def split: option.splits)
next
  case None
  from inv have idx: "sf_idx d < n_blocks (sf_file d)" and ok: "blocks_ok store (sf_file d)"
    and ne: "sf_crypt d = None \<longrightarrow> \<not> sf_enc_init d"
    by (simp_all add: sf_inv_def)
  define blk_id where "blk_id = blk_sha1s (sf_file d) ! sf_idx d"
  from blocks_ok_nth [OF ok idx] obtain b where
    b: "store blk_id = Some b" "blk_readable b" "blk_statable b" "length (blk_data b) < 2 ^ 31"
    by (auto simp: block_ok_def blk_id_def split: option.splits)
  define h where "h = \<lparr>h_rest = blk_data b, h_size = length (blk_data b),
             h_readable = blk_readable b, h_statable = blk_statable b\<rparr>"
  have op: "open_block store blk_id = Some h" by (simp add: open_block_def b h_def)
  from b have "length (blk_data b) < (2 :: nat) ^ 32" by simp
  then have st: "stat_block_by_handle h = Some (length (blk_data b))"
    using b by (simp add: stat_block_by_handle_def h_def)
  have bytes: "block_bytes store blk_id = blk_data b" by (simp add: block_bytes_def b)
  from ex None later_blocks_Cons [OF idx, of store]
  obtain p rest where p: "plain_block ciph (sf_crypt d) (blk_data b) = Some p"
    and rest: "plain_blocks ciph (sf_crypt d) (later_blocks store d (sf_idx d + 1)) = Some rest"
    and out: "out = p @ rest"
    by (auto simp: sf_expected_def bytes blk_id_def [symmetric] split: option.splits)
  show ?thesis
  proof (cases "sf_crypt d")
    case nocrypt: None
    with p have "p = blk_data b" by (simp add: plain_block_def)
    with None nocrypt op st b idx ok ne rest out show ?thesis
      unfolding blk_id_def [symmetric]
      by (simp add: open_current_def Let_def sf_inv_def sf_expected_def sf_same_def h_def
            later_blocks_def)
  next
    case (Some cr)
    with p obtain c where c: "decrypt_init ciph (cr_version cr) (cr_key cr) (cr_iv cr) = Some c"
      and dc: "dec_chunks ciph c (blk_data b) = Some p"
      by (auto simp: plain_block_def decrypt_block_def split: option.splits)
    with None Some op st b idx ok rest out show ?thesis
      unfolding blk_id_def [symmetric]
      by (simp add: open_current_def Let_def sf_inv_def sf_expected_def sf_same_def h_def
            later_blocks_def)
  qed
qed


text \<open>What \<^verbatim>\<open>free_sendfile_data\<close> releases at the end of the last block.\<close>

definition sf_released :: "'c sendfile_data \<Rightarrow> resource list" where
  "sf_released d = File_Object # (if sf_crypt d = None then [] else [Crypt_Struct])"

lemma sendfile_stats_same: "sf_same d d' \<Longrightarrow> sendfile_stats d' = sendfile_stats d"
  by (simp add: sf_same_def sendfile_stats_def)

lemma sf_released_same: "sf_same d d' \<Longrightarrow> sf_released d' = sf_released d"
  by (simp add: sf_same_def sf_released_def)

lemma sf_same_trans: "sf_same d d' \<Longrightarrow> sf_same d' d'' \<Longrightarrow> sf_same d d''"
  by (simp add: sf_same_def)

lemma write_data_read_end:
  assumes h: "sf_handle d1 = Some h" and inv: "sf_inv store d1"
    and ex: "sf_expected ciph store d1 = Some out"
    and empty: "h_rest h = []"
  shows "(\<exists>d'. write_data_read ciph d1 h = Next_Block d' \<and> sf_inv store d' \<and>
              sf_expected ciph store d' = Some out \<and> sf_same d1 d') \<or>
         (write_data_read ciph d1 h = Done (Finished [] (sendfile_stats d1) (sf_released d1)) \<and>
          out = [])"
proof -
  from inv h have rd: "h_readable h" and idx: "sf_idx d1 < n_blocks (sf_file d1)"
    and ok: "blocks_ok store (sf_file d1)" and ne: "sf_crypt d1 = None \<longrightarrow> \<not> sf_enc_init d1"
    by (simp_all add: sf_inv_def)
  have rb: "read_block h 65536 = (0, [], h\<lparr>h_rest := []\<rparr>)"
    using rd empty by (simp add: read_block_def)
  from ex h empty obtain rest where
    rest: "plain_blocks ciph (sf_crypt d1) (later_blocks store d1 (sf_idx d1 + 1)) = Some rest"
    and out: "out = rest"
    by (auto simp: sf_expected_def dec_chunks.simps split: option.splits)
  show ?thesis
  proof (cases "sf_idx d1 + 1 = n_blocks (sf_file d1)")
    case True
    then have "later_blocks store d1 (sf_idx d1 + 1) = []"
      by (simp add: later_blocks_def n_blocks_def)
    with rest out have "out = []" by simp
    moreover have "write_data_read ciph d1 h =
        Done (Finished [] (sendfile_stats d1) (sf_released d1))"
      using True ne
      by (simp add: write_data_read_def rb Let_def sendfile_stats_def free_sendfile_data_def
            sf_released_def)
    ultimately show ?thesis by simp
  next
    case False
    define d' where "d' = (if sf_crypt d1 \<noteq> None
        then d1\<lparr>sf_handle := None, sf_remain := nat (int (sf_remain d1) mod 2 ^ 64),
                 sf_ctx := None, sf_enc_init := False, sf_idx := sf_idx d1 + 1\<rparr>
        else d1\<lparr>sf_handle := None, sf_remain := nat (int (sf_remain d1) mod 2 ^ 64),
                 sf_idx := sf_idx d1 + 1\<rparr>)"
    have nb: "write_data_read ciph d1 h = Next_Block d'"
      using False by (simp add: write_data_read_def rb Let_def d'_def)
    have "sf_inv store d'" using False idx ok ne by (simp add: sf_inv_def d'_def)
    moreover have "sf_expected ciph store d' = Some out"
      using rest out by (auto simp: sf_expected_def later_blocks_def d'_def)
    moreover have "sf_same d1 d'" by (simp add: sf_same_def d'_def)
    ultimately show ?thesis using nb by blast
  qed
qed

lemma remain_after_read:
  "length rest < 2 ^ 31 \<Longrightarrow>
   nat ((int (length rest) - int (length (take k rest))) mod 2 ^ 64) = length (drop k rest)"
proof -
  assume "length rest < 2 ^ 31"
  then have "int (length rest) - int (length (take k rest)) = int (length (drop k rest))"
    by simp
  moreover have "int (length (drop k rest)) mod 2 ^ 64 = int (length (drop k rest))"
    using \<open>length rest < 2 ^ 31\<close> by (intro mod_pos_pos_trivial) simp_all
  ultimately show ?thesis by simp
qed

lemma write_data_read_data:
  assumes h: "sf_handle d1 = Some h" and inv: "sf_inv store d1"
    and ex: "sf_expected ciph store d1 = Some out"
    and ctx: "sf_crypt d1 \<noteq> None \<longrightarrow> sf_ctx d1 \<noteq> None"
    and nonempty: "h_rest h \<noteq> []"
  shows "\<exists>bs d' out'. write_data_read ciph d1 h = Done (Sent bs d') \<and> sf_inv store d' \<and>
           sf_expected ciph store d' = Some out' \<and> out = bs @ out' \<and> sf_same d1 d'"
proof -
  from inv h have rd: "h_readable h" and idx: "sf_idx d1 < n_blocks (sf_file d1)"
    and ok: "blocks_ok store (sf_file d1)" and ne: "sf_crypt d1 = None \<longrightarrow> \<not> sf_enc_init d1"
    and len: "length (h_rest h) < 2 ^ 31" and rem: "sf_remain d1 = length (h_rest h)"
    by (simp_all add: sf_inv_def)
  define buf where "buf = take 65536 (h_rest h)"
  define h' where "h' = h\<lparr>h_rest := drop 65536 (h_rest h)\<rparr>"
  define d2 where "d2 = d1\<lparr>sf_handle := Some h', sf_remain := length (drop 65536 (h_rest h))\<rparr>"
  have bufne: "buf \<noteq> []" using nonempty by (simp add: buf_def)
  have rb: "read_block h 65536 = (int (length buf), buf, h')"
    using rd by (simp add: read_block_def buf_def h'_def)
  have rem2: "nat ((int (sf_remain d1) - int (length buf)) mod 2 ^ 64) = length (drop 65536 (h_rest h))"
    unfolding rem buf_def by (rule remain_after_read [OF len])
  have wr: "write_data_read ciph d1 h = Done (decrypt_and_write ciph d2 buf)"
    using bufne rem2 by (simp add: write_data_read_def rb Let_def d2_def)
  have inv2: "sf_inv store d2"
    using idx ok ne rd len by (simp add: sf_inv_def d2_def h'_def)
  have same2: "sf_same d1 d2" by (simp add: sf_same_def d2_def)
  from ex h obtain p rest where
    p: "(case sf_crypt d1 of None \<Rightarrow> Some (h_rest h)
         | Some cr \<Rightarrow> (case sf_ctx d1 of None \<Rightarrow> None | Some c \<Rightarrow> dec_chunks ciph c (h_rest h))) = Some p"
    and rest: "plain_blocks ciph (sf_crypt d1) (later_blocks store d1 (sf_idx d1 + 1)) = Some rest"
    and out: "out = p @ rest"
    by (auto simp: sf_expected_def split: option.splits)
  have later2: "\<And>c. later_blocks store (d2\<lparr>sf_ctx := c\<rparr>) (sf_idx d1 + 1) = later_blocks store d1 (sf_idx d1 + 1)"
    by (simp add: later_blocks_def d2_def)
  show ?thesis
  proof (cases "sf_crypt d1")
    case None
    with p have pp: "p = buf @ drop 65536 (h_rest h)" by (simp add: buf_def)
    have "decrypt_and_write ciph d2 buf = Sent buf d2"
      using None by (simp add: decrypt_and_write_def d2_def)
    moreover have "sf_expected ciph store d2 = Some (drop 65536 (h_rest h) @ rest)"
      using None rest by (simp add: sf_expected_def d2_def h'_def later_blocks_def)
    ultimately show ?thesis using wr inv2 same2 out pp by auto
  next
    case (Some cr)
    with ctx obtain c where c: "sf_ctx d1 = Some c" by auto
    with p Some have dc: "dec_chunks ciph c (h_rest h) = Some p" by simp
    from dc nonempty obtain c' o1 where
      up: "decrypt_update ciph c buf = Some (c', o1)"
      and tail: "(if drop 65536 (h_rest h) = []
                  then map_option (\<lambda>fin. o1 @ fin) (decrypt_final ciph c')
                  else map_option (\<lambda>more. o1 @ more) (dec_chunks ciph c' (drop 65536 (h_rest h)))) = Some p"
      by (subst (asm) dec_chunks.simps) (auto simp: buf_def split: option.splits)
    define d3 where "d3 = d2\<lparr>sf_ctx := Some c'\<rparr>"
    have inv3: "sf_inv store d3"
      using inv2 by (auto simp: sf_inv_def d3_def split: option.splits)
    have same3: "sf_same d1 d3" using same2 by (simp add: sf_same_def d3_def)
    show ?thesis
    proof (cases "drop 65536 (h_rest h) = []")
      case True
      with tail obtain fin where fin: "decrypt_final ciph c' = Some fin" and pp: "p = o1 @ fin"
        by auto
      have "decrypt_and_write ciph d2 buf = Sent (o1 @ fin) d3"
        using Some c up fin True by (simp add: decrypt_and_write_def d2_def d3_def Let_def)
      moreover have "sf_expected ciph store d3 = Some rest"
        using Some rest True
        by (simp add: sf_expected_def d3_def d2_def h'_def later_blocks_def dec_chunks.simps)
      ultimately show ?thesis using wr inv3 same3 out pp by auto
    next
      case False
      with tail obtain more where more: "dec_chunks ciph c' (drop 65536 (h_rest h)) = Some more"
        and pp: "p = o1 @ more"
        by auto
      have "decrypt_and_write ciph d2 buf = Sent o1 d3"
        using Some c up False by (simp add: decrypt_and_write_def d2_def d3_def Let_def)
      moreover have "sf_expected ciph store d3 = Some (more @ rest)"
        using Some rest more
        by (simp add: sf_expected_def d3_def d2_def h'_def later_blocks_def)
      ultimately show ?thesis using wr inv3 same3 out pp by auto
    qed
  qed
qed


lemma write_data_pass_ok:
  assumes inv: "sf_inv store d" and ex: "sf_expected ciph store d = Some out"
  shows "(\<exists>d'. write_data_pass ciph store d = Next_Block d' \<and> sf_inv store d' \<and>
              sf_expected ciph store d' = Some out \<and> sf_same d d') \<or>
         (\<exists>bs d' out'. write_data_pass ciph store d = Done (Sent bs d') \<and> sf_inv store d' \<and>
              sf_expected ciph store d' = Some out' \<and> out = bs @ out' \<and> sf_same d d') \<or>
         (write_data_pass ciph store d = Done (Finished [] (sendfile_stats d) (sf_released d)) \<and>
          out = [])"
proof -
  from open_current_ok [OF inv ex] obtain d1 h where
    oc: "open_current ciph store d (blk_sha1s (sf_file d) ! sf_idx d) = Inr (d1, h)"
    and h: "sf_handle d1 = Some h" and inv1: "sf_inv store d1"
    and ex1: "sf_expected ciph store d1 = Some out" and same: "sf_same d d1"
    and ctx: "sf_crypt d \<noteq> None \<longrightarrow> sf_ctx d1 \<noteq> None"
    by blast
  from inv have "\<not> n_blocks (sf_file d) \<le> sf_idx d" by (simp add: sf_inv_def)
  then have pass: "write_data_pass ciph store d = write_data_read ciph d1 h"
    by (simp add: write_data_pass_def oc)
  from same ctx have ctx1: "sf_crypt d1 \<noteq> None \<longrightarrow> sf_ctx d1 \<noteq> None"
    by (simp add: sf_same_def)
  show ?thesis
  proof (cases "h_rest h = []")
    case True
    from write_data_read_end [OF h inv1 ex1 True] same show ?thesis
      unfolding pass
      by (auto simp: sendfile_stats_same sf_released_same intro: sf_same_trans)
  next
    case False
    from write_data_read_data [OF h inv1 ex1 ctx1 False] same show ?thesis
      unfolding pass by (blast intro: sf_same_trans)
  qed
qed

lemma write_data_cb_ok:
  "sf_inv store d \<Longrightarrow> sf_expected ciph store d = Some out \<Longrightarrow>
   (\<exists>bs d' out'. write_data_cb ciph store d = Sent bs d' \<and> sf_inv store d' \<and>
        sf_expected ciph store d' = Some out' \<and> out = bs @ out' \<and> sf_same d d') \<or>
   (write_data_cb ciph store d = Finished [] (sendfile_stats d) (sf_released d) \<and> out = [])"
proof (induction ciph store d rule: write_data_cb.induct)
  case (1 ciph store d)
  from write_data_pass_ok [OF "1.prems"]
  consider (nxt) d' where "write_data_pass ciph store d = Next_Block d'" "sf_inv store d'"
      "sf_expected ciph store d' = Some out" "sf_same d d'"
    | (sent) bs d' out' where "write_data_pass ciph store d = Done (Sent bs d')" "sf_inv store d'"
      "sf_expected ciph store d' = Some out'" "out = bs @ out'" "sf_same d d'"
    | (fin) "write_data_pass ciph store d = Done (Finished [] (sendfile_stats d) (sf_released d))"
      "out = []"
    by blast
  then show ?case
  proof cases
    case nxt
    from "1.IH" [OF nxt(1) nxt(2) nxt(3)] nxt(4) show ?thesis
      by (subst (1 2) write_data_cb.simps)
         (auto simp: nxt(1) sendfile_stats_same sf_released_same intro: sf_same_trans)
  next
    case sent
    then show ?thesis by (subst write_data_cb.simps) auto
  next
    case fin
    then show ?thesis by (subst (1 2) write_data_cb.simps) simp
  qed
qed

lemma run_sendfile_ok:
  "sf_inv store d \<Longrightarrow> sf_expected ciph store d = Some out \<Longrightarrow>
   run_sendfile ciph store d = step_result out (sendfile_stats d) (sf_released d) Reply_End"
proof (induction ciph store d arbitrary: out rule: run_sendfile.induct)
  case (1 ciph store d)
  from write_data_cb_ok [OF "1.prems"]
  consider (sent) bs d' out' where "write_data_cb ciph store d = Sent bs d'" "sf_inv store d'"
      "sf_expected ciph store d' = Some out'" "out = bs @ out'" "sf_same d d'"
    | (fin) "write_data_cb ciph store d = Finished [] (sendfile_stats d) (sf_released d)" "out = []"
    by blast
  then show ?case
  proof cases
    case sent
    from "1.IH" [OF sent(1) sent(2) sent(3)] sent(4,5) show ?thesis
      by (subst run_sendfile.simps)
         (simp add: sent(1) prepend_body_def step_result_def sendfile_stats_same sf_released_same)
  next
    case fin
    then show ?thesis by (subst run_sendfile.simps) simp
  qed
qed

lemma split_pieces_no_delim: "d \<notin> set s \<Longrightarrow> split_pieces s d = [s]"
  by (induction s) auto

lemma split_pieces_append:
  "d \<notin> set a \<Longrightarrow> split_pieces (a @ d # b) d = a # split_pieces b d"
  by (induction a) auto

lemma g_strsplit_route:
  assumes "CHR ''/'' \<notin> set route" "CHR ''/'' \<notin> set token" "CHR ''/'' \<notin> set name"
  shows "g_strsplit (drop 1 (CHR ''/'' # route @ CHR ''/'' # token @ CHR ''/'' # name)) CHR ''/'' =
         [route, token, name]"
  using assms by (simp add: g_strsplit_def split_pieces_append split_pieces_no_delim)

text \<open>The headers that \<^verbatim>\<open>can_use_cached_content\<close> leaves on a request without \<^verbatim>\<open>If-Modified-Since\<close>.\<close>

definition cache_headers :: "env \<Rightarrow> response" where
  "cache_headers e =
     add_header ''Cache-Control'' ''max-age=3600''
       (add_header ''Last-Modified'' (http_date e) no_response)"

lemma do_file_rc:
  "get_seafile e (store_id repo) (version repo) file_id = Some f \<Longrightarrow>
   h_rc (do_file e req resp repo file_id filename operation key user) = 0"
  by (simp add: do_file_def Let_def)

lemma access_cb_whole_file:
  assumes path: "req_path req = ''/files/'' @ token @ ''/'' @ name"
      "CHR ''/'' \<notin> set token" "CHR ''/'' \<notin> set name"
    and nocond: "evhtp_kv_find (headers_in req) ''If-Modified-Since'' = None"
    and tok: "query_access_token e token = Some wa"
    and op: "wa_op wa = ''view'' \<or> wa_op wa = ''download'' \<or> wa_op wa = ''download-link''"
    and repo: "get_repo e (wa_repo_id wa) = Some repo"
    and key: "encrypted repo \<longrightarrow> get_decrypt_key e (wa_repo_id wa) (wa_username wa) \<noteq> None"
    and whole: "encrypted repo \<or> evhtp_kv_find (headers_in req) ''Range'' = None"
    and obj: "object_exists e (store_id repo) (version repo) (wa_obj_id wa)"
    and fl: "get_seafile e (store_id repo) (version repo) (wa_obj_id wa) = Some f"
  shows "access_cb e req =
         Inr (do_file e req (cache_headers e) repo (wa_obj_id wa) name (wa_op wa)
                (if encrypted repo then get_decrypt_key e (wa_repo_id wa) (wa_username wa)
                 else None)
                (wa_username wa))"
proof -
  have parts: "g_strsplit (drop (Suc 0) (req_path req)) CHR ''/'' = [''files'', token, name]"
    using g_strsplit_route [of "''files''" token name] path by simp
  have cached: "can_use_cached_content e req no_response = (False, cache_headers e)"
    using nocond by (simp add: can_use_cached_content_def cache_headers_def)
  have "access_cb_repo e req (cache_headers e) repo wa name (evhtp_kv_find (headers_in req) ''Range'') =
        Inr (do_file e req (cache_headers e) repo (wa_obj_id wa) name (wa_op wa)
                (if encrypted repo then get_decrypt_key e (wa_repo_id wa) (wa_username wa)
                 else None)
                (wa_username wa))"
    using key whole obj
    by (auto simp: access_cb_repo_def Let_def files_reply_def do_file_rc [OF fl])
  then show ?thesis
    using op tok repo by (auto simp: access_cb_def parts cached Let_def)
qed

lemma plain_blocks_None: "plain_blocks ciph None bs = Some (concat bs)"
  by (induction bs) (simp_all add: plain_block_def)

lemma show_nat_length: "n < 10 ^ k \<Longrightarrow> 0 < k \<Longrightarrow> length (show_nat n) \<le> k"
proof (induction k arbitrary: n)
  case 0
  then show ?case by simp
next
  case (Suc k)
  show ?case
  proof (cases "n < 10")
    case True
    then show ?thesis by (subst show_nat.simps) simp
  next
    case False
    with Suc.prems have "n div 10 < 10 ^ k" and "0 < k"
      by (auto simp: less_mult_imp_div_less intro: Suc_lessI gr0I)
    from Suc.IH [OF this] False show ?thesis by (subst show_nat.simps) simp
  qed
qed

lemma show_nat_u64_length: "length (show_nat (unat (w :: 64 word))) \<le> 20"
proof -
  have "unat w < 2 ^ 64" using unsigned_less [of w, where 'a = nat] by simp
  also have "(2 :: nat) ^ 64 < 10 ^ 20" by simp
  finally show ?thesis by (rule show_nat_length) simp
qed

lemma show_i64_small: "w < 2 ^ 63 \<Longrightarrow> show_i64 (w :: 64 word) = show_nat (unat w)"
proof -
  assume "w < 2 ^ 63"
  then have "uint w < 2 ^ 63" by (simp add: word_less_def)
  moreover have "- (2 ^ 63) \<le> uint w"
    by (rule order_trans [of _ 0]) simp_all
  ultimately have "signed_take_bit 63 (uint w) = uint w"
    by (intro signed_take_bit_int_eq_self) simp_all
  then have "sint w = uint w" by (simp add: sint_uint)
  then show ?thesis by (simp add: show_i64_def uint_nat [symmetric])
qed

text \<open>The engine state that \<^verbatim>\<open>do_file\<close> installs.\<close>

definition sendfile_start ::
  "env \<Rightarrow> seaf_repo \<Rightarrow> seafile \<Rightarrow> crypt_key option \<Rightarrow> string \<Rightarrow> string \<Rightarrow> 'c sendfile_data" where
  "sendfile_start e repo file key user operation =
     \<lparr>sf_file = file, sf_crypt = new_crypt e repo key, sf_enc_init = False, sf_ctx = None,
      sf_handle = None, sf_remain = 0, sf_idx = 0,
      sf_store_id = take 36 (store_id repo), sf_repo_version = version repo,
      sf_user = user, sf_token_type = operation\<rparr>"

lemma do_file_streams:
  assumes "get_seafile e (store_id repo) (version repo) file_id = Some f"
    and "req_method req \<noteq> htp_method_HEAD" and "blk_sha1s f \<noteq> []"
  shows "do_file e req resp repo file_id filename operation key user =
         \<lparr>h_rc = 0,
          h_resp = evhtp_send_reply_start EVHTP_RES_OK
                     (do_file_headers e req f filename operation resp),
          h_engine = Some (File_Engine (sendfile_start e repo f key user operation)),
          h_held = []\<rparr>"
  using assms by (simp add: do_file_def Let_def n_blocks_def sendfile_start_def)

lemma content_length_of_do_file:
  "evhtp_kv_find (headers_out (do_file_headers e req f filename operation (cache_headers e)))
     ''Content-Length'' = Some (snprintf 255 (show_i64 (file_size f)))"
  by (simp add: do_file_headers_def cache_headers_def no_response_def Let_def find_added_header
        strcaseeq_def g_ascii_tolower_def)

lemma sendfile_start_ok:
  assumes "blk_sha1s f \<noteq> []" and "blocks_ok store f"
  shows "sf_inv store (sendfile_start e repo f key user operation)"
    and "sf_expected ciph store (sendfile_start e repo f key user operation :: 'c sendfile_data) =
         plain_blocks ciph (new_crypt e repo key) (map (block_bytes store) (blk_sha1s f))"
  using assms
  by (simp_all add: sf_inv_def sf_expected_def sendfile_start_def n_blocks_def later_blocks_def)

text \<open>
  Claim C1: a GET of \<^verbatim>\<open>/files/<token>/<name>\<close> for a non-empty file in an unencrypted
  repository (operation view, download or download-link, no \<^verbatim>\<open>Range\<close> and no
  \<^verbatim>\<open>If-Modified-Since\<close> header, every block in the store and readable, \<open>file_size\<close>
  below \<open>2 ^ 63\<close> as \<^verbatim>\<open>G_GINT64_FORMAT\<close> prints it) is answered with status 200, a
  \<^verbatim>\<open>Content-Length\<close> equal to \<open>file_size\<close>, and a body equal to the blocks of the file
  one after the other; the stream ends with the reply's end.
\<close>

theorem whole_file_delivery:
  assumes path: "req_path req = ''/files/'' @ token @ ''/'' @ name"
      "CHR ''/'' \<notin> set token" "CHR ''/'' \<notin> set name"
    and is_get: "req_method req = htp_method_GET"
    and nocond: "evhtp_kv_find (headers_in req) ''If-Modified-Since'' = None"
    and norange: "evhtp_kv_find (headers_in req) ''Range'' = None"
    and tok: "query_access_token e token = Some wa"
    and op: "wa_op wa = ''view'' \<or> wa_op wa = ''download'' \<or> wa_op wa = ''download-link''"
    and repo: "get_repo e (wa_repo_id wa) = Some repo"
    and plain: "encrypted repo = False"
    and sid: "length (store_id repo) \<le> 36"
    and obj: "object_exists e (store_id repo) (version repo) (wa_obj_id wa)"
    and fl: "get_seafile e (store_id repo) (version repo) (wa_obj_id wa) = Some f"
    and nonempty: "blk_sha1s f \<noteq> []"
    and blocks: "blocks_ok (block_mgr e (store_id repo) (version repo)) f"
    and size: "file_size f < 2 ^ 63"
  shows "map_sum id (\<lambda>x. (ex_status x, evhtp_kv_find (ex_headers x) ''Content-Length'',
                            ex_body x, ex_end x))
           (serve_files ciph e req) =
         Inr (Some 200, Some (show_nat (unat (file_size f))),
              file_bytes (block_mgr e (store_id repo) (version repo)) f, Reply_End)"
proof -
  let ?store = "block_mgr e (store_id repo) (version repo)"
  let ?d = "sendfile_start e repo f None (wa_username wa) (wa_op wa) :: 'a sendfile_data"
  have acc: "access_cb e req =
      Inr (do_file e req (cache_headers e) repo (wa_obj_id wa) name (wa_op wa) None (wa_username wa))"
    using access_cb_whole_file [OF path nocond tok op repo _ _ obj fl] plain norange by simp
  have df: "do_file e req (cache_headers e) repo (wa_obj_id wa) name (wa_op wa) None (wa_username wa) =
      \<lparr>h_rc = 0,
       h_resp = evhtp_send_reply_start EVHTP_RES_OK
                  (do_file_headers e req f name (wa_op wa) (cache_headers e)),
       h_engine = Some (File_Engine ?d), h_held = []\<rparr>"
    by (rule do_file_streams [OF fl _ nonempty]) (simp add: is_get)
  have st: "sf_store_id ?d = store_id repo" "sf_repo_version ?d = version repo"
    using sid by (simp_all add: sendfile_start_def)
  have "sf_expected ciph ?store ?d = Some (file_bytes ?store f)"
    by (simp add: sendfile_start_ok(2) [OF nonempty blocks] new_crypt_def plain_blocks_None
          file_bytes_def)
  from run_sendfile_ok [OF sendfile_start_ok(1) [OF nonempty blocks] this]
  have run: "run_sendfile ciph ?store ?d =
      step_result (file_bytes ?store f) (sendfile_stats ?d) (sf_released ?d) Reply_End" .
  have buf: "buffer_out (do_file_headers e req f name (wa_op wa) (cache_headers e)) = []"
    by (simp add: do_file_headers_def cache_headers_def no_response_def add_header_def Let_def)
  have len: "snprintf 255 (show_i64 (file_size f)) = show_nat (unat (file_size f))"
    using show_nat_u64_length [of "file_size f"] by (simp add: snprintf_def show_i64_small [OF size])
  show ?thesis
    by (simp add: serve_files_def acc df exchange_of_def run_engine_def st run step_result_def
          reply_code_def evhtp_send_reply_start_def EVHTP_RES_OK_def buf
          content_length_of_do_file [unfolded headers_out_send_reply] len)
qed

theorem whole_file_delivery_witness:
  "map_sum id (\<lambda>x. (ex_status x, evhtp_kv_find (ex_headers x) ''Content-Length'',
                     ex_body x, ex_end x))
     (serve_files no_cipher hello_env (get_request ''/files/T/hello.txt'' [])) =
   Inr (Some 200, Some ''250'',
        replicate 100 CHR ''a'' @ replicate 100 CHR ''b'' @ replicate 50 CHR ''c'', Reply_End)"
proof -
  let ?req = "get_request ''/files/T/hello.txt'' []"
  let ?wa = "\<lparr>wa_repo_id = ''repo-1'', wa_obj_id = ''file-1'', wa_op = ''download'',
              wa_username = ''alice''\<rparr>"
  have path: "req_path ?req = ''/files/'' @ ''T'' @ ''/'' @ ''hello.txt''"
    "CHR ''/'' \<notin> set ''T''" "CHR ''/'' \<notin> set ''hello.txt''"
    by (simp_all add: get_request_def)
  have is_get: "req_method ?req = htp_method_GET" by (simp add: get_request_def)
  have nocond: "evhtp_kv_find (headers_in ?req) ''If-Modified-Since'' = None"
    by (simp add: get_request_def)
  have norange: "evhtp_kv_find (headers_in ?req) ''Range'' = None"
    by (simp add: get_request_def)
  have tok: "query_access_token hello_env ''T'' = Some ?wa"
    by (simp add: hello_env_def hello_token_def)
  have op: "wa_op ?wa = ''view'' \<or> wa_op ?wa = ''download'' \<or> wa_op ?wa = ''download-link''"
    by simp
  have repo: "get_repo hello_env (wa_repo_id ?wa) = Some hello_repo"
    by (simp add: hello_env_def)
  have plain: "encrypted hello_repo = False" by (simp add: hello_repo_def)
  have sid: "length (store_id hello_repo) \<le> 36" by (simp add: hello_repo_def)
  have obj: "object_exists hello_env (store_id hello_repo) (version hello_repo) (wa_obj_id ?wa)"
    by (simp add: hello_env_def)
  have fl: "get_seafile hello_env (store_id hello_repo) (version hello_repo) (wa_obj_id ?wa) =
            Some hello_file"
    by (simp add: hello_env_def)
  have nonempty: "blk_sha1s hello_file \<noteq> []" by (simp add: hello_file_def)
  have st: "block_mgr hello_env (store_id hello_repo) (version hello_repo) = hello_store"
    by (simp add: hello_env_def)
  have blocks: "blocks_ok (block_mgr hello_env (store_id hello_repo) (version hello_repo)) hello_file"
    unfolding st
    by (simp add: blocks_ok_def block_ok_def hello_file_def hello_store_def stored_def
          blk1_def blk2_def blk3_def)
  have size: "file_size hello_file < 2 ^ 63" by (simp add: hello_file_def)
  have bytes: "file_bytes hello_store hello_file =
      replicate 100 CHR ''a'' @ replicate 100 CHR ''b'' @ replicate 50 CHR ''c''"
    by (simp add: file_bytes_def block_bytes_def hello_file_def hello_store_def stored_def
          blk1_def blk2_def blk3_def)
  have len: "show_nat (unat (file_size hello_file)) = ''250''"
    by (simp add: hello_file_def show_nat.simps)
  from whole_file_delivery [of ?req "''T''" "''hello.txt''" hello_env ?wa hello_repo hello_file
      no_cipher, OF path is_get nocond norange tok op repo plain sid obj fl nonempty blocks size]
  show ?thesis by (simp only: st bytes len)
qed

lemma strcaseeq_trans: "strcaseeq a b \<Longrightarrow> strcaseeq a c \<Longrightarrow> strcaseeq b c"
  by (simp add: strcaseeq_def)

lemma evhtp_kv_find_filter:
  "\<not> strcaseeq r key \<Longrightarrow>
   evhtp_kv_find (filter (\<lambda>kv. \<not> strcaseeq (fst kv) r) kvs) key = evhtp_kv_find kvs key"
  by (induction kvs) (auto dest: strcaseeq_trans)

text \<open>The request without its \<^verbatim>\<open>Range\<close> headers.\<close>

definition without_range :: "request \<Rightarrow> request" where
  "without_range req =
     req\<lparr>headers_in := filter (\<lambda>kv. \<not> strcaseeq (fst kv) ''Range'') (headers_in req)\<rparr>"

lemma range_is_other_header:
  "\<not> strcaseeq ''Range'' ''If-Modified-Since''" "\<not> strcaseeq ''Range'' ''User-Agent''"
  by (simp_all add: strcaseeq_def g_ascii_tolower_def)

lemma without_range_fields [simp]:
  "req_path (without_range req) = req_path req"
  "req_method (without_range req) = req_method req"
  "evhtp_kv_find (headers_in (without_range req)) ''If-Modified-Since'' =
     evhtp_kv_find (headers_in req) ''If-Modified-Since''"
  "test_firefox (without_range req) = test_firefox req"
  by (simp_all add: without_range_def test_firefox_def
        evhtp_kv_find_filter [OF range_is_other_header(1)]
        evhtp_kv_find_filter [OF range_is_other_header(2)])

lemma do_file_headers_without_range:
  "do_file_headers e (without_range req) f filename operation resp =
   do_file_headers e req f filename operation resp"
  by (simp add: do_file_headers_def do_file_disposition_def)

lemma do_file_without_range:
  "do_file e (without_range req) resp repo file_id filename operation key user =
   do_file e req resp repo file_id filename operation key user"
  by (simp add: do_file_def do_file_headers_without_range split: option.splits)

lemma do_file_empty:
  assumes "get_seafile e (store_id repo) (version repo) file_id = Some f"
    and "req_method req \<noteq> htp_method_HEAD" and "blk_sha1s f = []"
  shows "do_file e req resp repo file_id filename operation key user =
         \<lparr>h_rc = 0,
          h_resp = evhtp_send_reply EVHTP_RES_OK (do_file_headers e req f filename operation resp),
          h_engine = None,
          h_held = (if new_crypt e repo key = None then [] else [Crypt_Struct])\<rparr>"
  using assms by (simp add: do_file_def Let_def n_blocks_def)

lemma no_content_range_of_do_file:
  "evhtp_kv_find (headers_out (do_file_headers e req f filename operation (cache_headers e)))
     ''Content-Range'' = None"
  by (simp add: do_file_headers_def cache_headers_def no_response_def Let_def find_added_header
        strcaseeq_def g_ascii_tolower_def)

text \<open>
  The parameters of the transform as the specification gives them: the version is the
  repository's \<open>enc_version\<close>; the key is the raw form of the hex string \<open>key\<close> of the
  key manager, 16 bytes for \<open>enc_version\<close> 1 and 32 bytes otherwise; the iv is the raw
  form of its hex string \<open>iv\<close>, 16 bytes. \<open>decrypted_file\<close> is the plaintext of the
  blocks of a file under these parameters, block by block.
\<close>

definition key_bytes :: "seaf_repo \<Rightarrow> nat" where
  "key_bytes repo = (if enc_version repo = 1 then 16 else 32)"

definition repo_crypt :: "env \<Rightarrow> seaf_repo \<Rightarrow> crypt_key \<Rightarrow> seafile_crypt" where
  "repo_crypt e repo k =
     \<lparr>cr_version = enc_version repo,
      cr_key = hex_to_rawdata e (key_hex k) (key_bytes repo),
      cr_iv = hex_to_rawdata e (iv_hex k) 16\<rparr>"

definition decrypted_file ::
  "'c cipher \<Rightarrow> env \<Rightarrow> seaf_repo \<Rightarrow> crypt_key \<Rightarrow> seafile \<Rightarrow> string option" where
  "decrypted_file ciph e repo k f =
     plain_blocks ciph (Some (repo_crypt e repo k))
       (map (block_bytes (block_mgr e (store_id repo) (version repo))) (blk_sha1s f))"

lemma new_crypt_repo_crypt: "new_crypt e repo (Some k) = Some (repo_crypt e repo k)"
  by (simp add: new_crypt_def repo_crypt_def key_bytes_def)

text \<open>
  Claim C9: a GET of \<^verbatim>\<open>/files/<token>/<name>\<close> with a \<^verbatim>\<open>Range\<close> header, for a file in
  an encrypted repository whose key is available, is served in whole-file mode: the
  status is 200, there is no \<^verbatim>\<open>Content-Range\<close>, the body is the whole file decrypted
  with the key and the iv of the repository's key (\<open>decrypted_file\<close>), and the exchange
  is the one of the same request without its \<^verbatim>\<open>Range\<close> header.
\<close>

theorem encrypted_range_whole_file:
  assumes path: "req_path req = ''/files/'' @ token @ ''/'' @ name"
      "CHR ''/'' \<notin> set token" "CHR ''/'' \<notin> set name"
    and is_get: "req_method req = htp_method_GET"
    and nocond: "evhtp_kv_find (headers_in req) ''If-Modified-Since'' = None"
    and range: "evhtp_kv_find (headers_in req) ''Range'' = Some ranges"
    and tok: "query_access_token e token = Some wa"
    and op: "wa_op wa = ''view'' \<or> wa_op wa = ''download'' \<or> wa_op wa = ''download-link''"
    and repo: "get_repo e (wa_repo_id wa) = Some repo"
    and enc: "encrypted repo"
    and key: "get_decrypt_key e (wa_repo_id wa) (wa_username wa) = Some k"
    and sid: "length (store_id repo) \<le> 36"
    and obj: "object_exists e (store_id repo) (version repo) (wa_obj_id wa)"
    and fl: "get_seafile e (store_id repo) (version repo) (wa_obj_id wa) = Some f"
    and blocks: "blocks_ok (block_mgr e (store_id repo) (version repo)) f"
    and dec: "decrypted_file ciph e repo k f = Some plaintext"
  shows "map_sum id (\<lambda>x. (ex_status x, evhtp_kv_find (ex_headers x) ''Content-Range'',
                            ex_body x, ex_end x))
           (serve_files ciph e req) =
         Inr (Some 200, None, plaintext, Reply_End) \<and>
         serve_files ciph e req = serve_files ciph e (without_range req)"
proof -
  let ?store = "block_mgr e (store_id repo) (version repo)"
  let ?d = "sendfile_start e repo f (Some k) (wa_username wa) (wa_op wa) :: 'a sendfile_data"
  have acc: "access_cb e req =
      Inr (do_file e req (cache_headers e) repo (wa_obj_id wa) name (wa_op wa) (Some k) (wa_username wa))"
    using access_cb_whole_file [OF path nocond tok op repo _ _ obj fl] enc key by simp
  have acc': "access_cb e (without_range req) =
      Inr (do_file e req (cache_headers e) repo (wa_obj_id wa) name (wa_op wa) (Some k) (wa_username wa))"
    using access_cb_whole_file [of "without_range req" token name e wa repo f, OF _ path(2,3) _ tok op repo _ _ obj fl]
      path(1) nocond enc key
    by (simp add: do_file_without_range)
  have same: "serve_files ciph e req = serve_files ciph e (without_range req)"
    by (simp add: serve_files_def acc acc')
  have buf: "buffer_out (do_file_headers e req f name (wa_op wa) (cache_headers e)) = []"
    by (simp add: do_file_headers_def cache_headers_def no_response_def add_header_def Let_def)
  have "map_sum id (\<lambda>x. (ex_status x, evhtp_kv_find (ex_headers x) ''Content-Range'',
                            ex_body x, ex_end x))
           (serve_files ciph e req) =
         Inr (Some 200, None, plaintext, Reply_End)"
  proof (cases "blk_sha1s f = []")
    case True
    with dec have pl: "plaintext = []" by (simp add: decrypted_file_def)
    have df: "do_file e req (cache_headers e) repo (wa_obj_id wa) name (wa_op wa) (Some k) (wa_username wa) =
      (\<lparr>h_rc = 0,
       h_resp = evhtp_send_reply EVHTP_RES_OK
                  (do_file_headers e req f name (wa_op wa) (cache_headers e)),
       h_engine = None,
       h_held = (if new_crypt e repo (Some k) = None then [] else [Crypt_Struct])\<rparr>
       :: 'a files_engine handled)"
      by (rule do_file_empty [OF fl _ True]) (simp add: is_get)
    show ?thesis
      by (simp add: serve_files_def acc df exchange_of_def run_engine_def step_result_def
          reply_code_def evhtp_send_reply_def EVHTP_RES_OK_def buf pl
          no_content_range_of_do_file)
  next
    case False
    have df: "do_file e req (cache_headers e) repo (wa_obj_id wa) name (wa_op wa) (Some k) (wa_username wa) =
      \<lparr>h_rc = 0,
       h_resp = evhtp_send_reply_start EVHTP_RES_OK
                  (do_file_headers e req f name (wa_op wa) (cache_headers e)),
       h_engine = Some (File_Engine ?d), h_held = []\<rparr>"
      by (rule do_file_streams [OF fl _ False]) (simp add: is_get)
    have st: "sf_store_id ?d = store_id repo" "sf_repo_version ?d = version repo"
      using sid by (simp_all add: sendfile_start_def)
    have "sf_expected ciph ?store ?d = Some plaintext"
      using dec
      by (simp add: sendfile_start_ok(2) [OF False blocks] new_crypt_repo_crypt
            decrypted_file_def)
    from run_sendfile_ok [OF sendfile_start_ok(1) [OF False blocks] this]
    have run: "run_sendfile ciph ?store ?d =
      step_result plaintext (sendfile_stats ?d) (sf_released ?d) Reply_End" .
    show ?thesis
      by (simp add: serve_files_def acc df exchange_of_def run_engine_def st run step_result_def
          reply_code_def evhtp_send_reply_start_def EVHTP_RES_OK_def buf
          no_content_range_of_do_file)
  qed
  with same show ?thesis by simp
qed

text \<open>
  The file of scenario S6: two blocks in an encrypted repository, reached by the token
  \<^verbatim>\<open>S\<close>. The transform of the scenario stands for the cipher. It accepts a key of the
  length that the version asks for and an iv of 16 bytes; a byte of plaintext is the
  byte of the block combined bit by bit (exclusive or) with the byte of the key and the
  byte of the iv at its position; like a block cipher with padding, it holds the last
  byte back until the final step. Its state is the key stream from the current
  position on and the byte held back.
\<close>

definition xor_char :: "char \<Rightarrow> char \<Rightarrow> char" where
  "xor_char a b =
     (case a of Char a0 a1 a2 a3 a4 a5 a6 a7 \<Rightarrow>
        (case b of Char b0 b1 b2 b3 b4 b5 b6 b7 \<Rightarrow>
           Char (a0 \<noteq> b0) (a1 \<noteq> b1) (a2 \<noteq> b2) (a3 \<noteq> b3)
                (a4 \<noteq> b4) (a5 \<noteq> b5) (a6 \<noteq> b6) (a7 \<noteq> b7)))"

fun toy_xor :: "string \<Rightarrow> string \<Rightarrow> string \<times> string" where
  "toy_xor pad [] = (pad, [])"
| "toy_xor pad (c # cs) =
     (case toy_xor (rotate1 pad) cs of
        (pad', out) \<Rightarrow> (pad', xor_char c (hd pad) # out))"

definition toy_cipher :: "(string \<times> string) cipher" where
  "toy_cipher =
     \<lparr>decrypt_init = (\<lambda>version key iv.
         if length key = (if version = 1 then 16 else 32) \<and> length iv = 16
         then Some (map2 xor_char key (iv @ iv), [])
         else None),
      decrypt_update = (\<lambda>(pad, held) buf.
         (let bytes = held @ buf; n = length bytes - 1
          in case toy_xor pad (take n bytes) of
               (pad', out) \<Rightarrow> Some ((pad', drop n bytes), out))),
      decrypt_final = (\<lambda>(pad, held). Some (snd (toy_xor pad held)))\<rparr>"

definition secret_store :: block_store where
  "secret_store blk_id =
     (if blk_id = blk1 then Some (stored ''h3l8oz '')
      else if blk_id = blk2 then Some (stored ''w9r8d'')
      else None)"

definition secret_file :: seafile where
  "secret_file = \<lparr>file_size = 12, blk_sha1s = [blk1, blk2]\<rparr>"

definition secret_repo :: seaf_repo where
  "secret_repo = \<lparr>store_id = ''repo-2'', version = 1, encrypted = True, enc_version = 2\<rparr>"

definition secret_access :: web_access where
  "secret_access =
     \<lparr>wa_repo_id = ''repo-2'', wa_obj_id = ''file-2'', wa_op = ''view'', wa_username = ''alice''\<rparr>"

definition secret_key :: crypt_key where
  "secret_key =
     \<lparr>key_hex = ''000102030405060708090a0b0c0d0e0f101112131415161718191a1b1c1d1e1f'',
      iv_hex = ''0f0e0d0c0b0a09080706050403020100''\<rparr>"

definition secret_env :: env where
  "secret_env =
     \<lparr>query_access_token = (\<lambda>token. if token = ''S'' then Some secret_access else None),
      get_repo = (\<lambda>repo_id. if repo_id = ''repo-2'' then Some secret_repo else None),
      get_decrypt_key = (\<lambda>repo_id user. if user = ''alice'' then Some secret_key else None),
      object_exists = (\<lambda>store_id version obj_id. obj_id = ''file-2''),
      get_seafile = (\<lambda>store_id version obj_id. if obj_id = ''file-2'' then Some secret_file else None),
      block_mgr = (\<lambda>store_id version. secret_store),
      hex_to_rawdata = (\<lambda>hex n. take n hex),
      http_date = ''Fri, 15 Mar 2024 10:00:00 GMT'',
      SEAF_PATH_MAX = 4096\<rparr>"

definition secret_request :: request where
  "secret_request = get_request ''/files/S/secret.bin'' [(''Range'', ''bytes=0-4'')]"

theorem encrypted_range_whole_file_witness:
  "map_sum id (\<lambda>x. (ex_status x, evhtp_kv_find (ex_headers x) ''Content-Range'',
                     ex_body x, ex_end x))
     (serve_files toy_cipher secret_env secret_request) =
   Inr (Some 200, None, ''hello, world'', Reply_End) \<and>
   serve_files toy_cipher secret_env secret_request =
   serve_files toy_cipher secret_env (without_range secret_request)"
proof -
  have path: "req_path secret_request = ''/files/'' @ ''S'' @ ''/'' @ ''secret.bin''"
    "CHR ''/'' \<notin> set ''S''" "CHR ''/'' \<notin> set ''secret.bin''"
    by (simp_all add: secret_request_def get_request_def)
  have is_get: "req_method secret_request = htp_method_GET"
    by (simp add: secret_request_def get_request_def)
  have nocond: "evhtp_kv_find (headers_in secret_request) ''If-Modified-Since'' = None"
    by (simp add: secret_request_def get_request_def strcaseeq_def g_ascii_tolower_def)
  have range: "evhtp_kv_find (headers_in secret_request) ''Range'' = Some ''bytes=0-4''"
    by (simp add: secret_request_def get_request_def strcaseeq_def)
  have tok: "query_access_token secret_env ''S'' = Some secret_access"
    by (simp add: secret_env_def)
  have op: "wa_op secret_access = ''view'' \<or> wa_op secret_access = ''download'' \<or>
            wa_op secret_access = ''download-link''"
    by (simp add: secret_access_def)
  have repo: "get_repo secret_env (wa_repo_id secret_access) = Some secret_repo"
    by (simp add: secret_env_def secret_access_def)
  have enc: "encrypted secret_repo" by (simp add: secret_repo_def)
  have key: "get_decrypt_key secret_env (wa_repo_id secret_access) (wa_username secret_access) =
             Some secret_key"
    by (simp add: secret_env_def secret_access_def)
  have sid: "length (store_id secret_repo) \<le> 36" by (simp add: secret_repo_def)
  have obj: "object_exists secret_env (store_id secret_repo) (version secret_repo)
               (wa_obj_id secret_access)"
    by (simp add: secret_env_def secret_access_def)
  have fl: "get_seafile secret_env (store_id secret_repo) (version secret_repo)
              (wa_obj_id secret_access) = Some secret_file"
    by (simp add: secret_env_def secret_access_def)
  have st: "block_mgr secret_env (store_id secret_repo) (version secret_repo) = secret_store"
    by (simp add: secret_env_def)
  have blocks: "blocks_ok (block_mgr secret_env (store_id secret_repo) (version secret_repo))
                  secret_file"
    unfolding st
    by (simp add: blocks_ok_def block_ok_def secret_file_def secret_store_def stored_def
          blk1_def blk2_def)
  have dec: "decrypted_file toy_cipher secret_env secret_repo secret_key secret_file =
             Some ''hello, world''"
    unfolding decrypted_file_def st
    by (simp add: repo_crypt_def key_bytes_def secret_env_def secret_repo_def secret_key_def
          secret_file_def block_bytes_def secret_store_def stored_def blk1_def blk2_def
          plain_block_def decrypt_block_def dec_chunks.simps toy_cipher_def xor_char_def)
  from encrypted_range_whole_file [OF path is_get nocond range tok op repo enc key sid obj fl
      blocks dec]
  show ?thesis .
qed

section \<open>The dispatchers and the release of the engine state\<close>

text \<open>
  Claim C8 (a \<^verbatim>\<open>/blks\<close> request whose token has another operation than
  \<^verbatim>\<open>downloadblks\<close> is answered 403) against the code: for the token \<^verbatim>\<open>T\<close>, whose
  operation is \<^verbatim>\<open>download\<close>, \<^verbatim>\<open>access_blks_cb\<close> returns with no reply sent, no error
  text and no engine installed.
\<close>

theorem blks_operation_mismatch_no_reply:
  "map_option wa_op (hello_token ''T'') = Some ''download'' \<and>
   reply (h_resp (access_blks_cb hello_env (get_request (''/blks/T/'' @ blk1) []))) = None \<and>
   buffer_out (h_resp (access_blks_cb hello_env (get_request (''/blks/T/'' @ blk1) []))) = [] \<and>
   h_engine (access_blks_cb hello_env (get_request (''/blks/T/'' @ blk1) [])) = None"
  by (simp add: access_blks_cb_def scenario_defs g_strsplit_def can_use_cached_content_def
        no_response_def add_header_def)

text \<open>
  Claim C5 (after every terminal event no file object stays attached to the request,
  also for HEAD requests) against the code: \<^verbatim>\<open>do_file\<close> answers a HEAD request and
  returns without \<^verbatim>\<open>seafile_unref\<close>; no engine is installed that would release the
  file object later, and it is still held when the exchange is over.
\<close>

theorem head_request_keeps_file_object:
  "map_sum id (\<lambda>x. (ex_status x, ex_end x, ex_released x, ex_held x))
     (serve_files ciph hello_env
        \<lparr>req_method = htp_method_HEAD, req_path = ''/files/T/hello.txt'', headers_in = []\<rparr>)
   = Inr (Some 200, Reply_End, [], [File_Object])"
  by (simp add: handler_defs scenario_defs string_defs status_defs)

section \<open>The Range parser\<close>

text \<open>
  Claim C10 (\<^verbatim>\<open>parse_range_val\<close> returns a verdict for every header value, also one
  without \<^verbatim>\<open>'='\<close>) against the code: for \<^verbatim>\<open>bytes 0-5\<close> the result of \<^verbatim>\<open>strchr\<close> is
  NULL and \<^verbatim>\<open>g_strdup\<close> reads from the address \<^verbatim>\<open>NULL + 1\<close>.
\<close>

theorem parse_range_val_without_equals: "parse_range_val ''bytes 0-5'' 250 = Inl Null_Deref"
  by (simp add: parse_range_val_def)

text \<open>
  What \<^verbatim>\<open>parse_range_val\<close> accepts, as a function of the text after the \<^verbatim>\<open>'='\<close>
  (\<open>single_range\<close>, compared with the code below). The code reads a number with
  \<^verbatim>\<open>strtoll\<close> and checks only where the number ends: white space, an optional sign and
  decimal digits (\<open>signed_number\<close>); the \<open>N\<close> of the form \<^verbatim>\<open>-N\<close> is digits only
  (\<open>unsigned_number\<close>). A value saturates at the bounds of a signed 64-bit integer and
  is then taken modulo \<open>2 ^ 64\<close> (\<open>u64_of\<close>).
\<close>

definition unsigned_number :: "string \<Rightarrow> int option" where
  "unsigned_number s = (if s \<noteq> [] \<and> list_all isdigit s then Some (dec_val s) else None)"

definition signed_number :: "string \<Rightarrow> int option" where
  "signed_number s =
     (case dropWhile isspace s of
        [] \<Rightarrow> None
      | c # t \<Rightarrow>
          if c = CHR ''-'' then map_option uminus (unsigned_number t)
          else if c = CHR ''+'' then unsigned_number t
          else unsigned_number (c # t))"

definition u64_of :: "int \<Rightarrow> 64 word" where
  "u64_of v = word_of_int (saturate v)"

text \<open>
  The text after the \<^verbatim>\<open>'='\<close> is split at its first \<^verbatim>\<open>'-'\<close>. \<^verbatim>\<open>-N\<close> is the last
  \<open>N\<close> bytes, rejected for \<open>N = 0\<close> and for \<open>N\<close> above the file size; \<^verbatim>\<open>N-\<close> runs
  from \<open>N\<close> to the last byte; \<^verbatim>\<open>N-M\<close> is inclusive, with the end clamped to the last
  byte. A range whose start is above its end is rejected.
\<close>

definition single_range :: "string \<Rightarrow> 64 word \<Rightarrow> (64 word \<times> 64 word) option" where
  "single_range t fsize =
     (case strchr t CHR ''-'' of
        None \<Rightarrow> None
      | Some m \<Rightarrow>
          (let before = take m t; after = drop (m + 1) t
           in if before = [] then
                (case unsigned_number after of
                   None \<Rightarrow> None
                 | Some n \<Rightarrow>
                     (let k = min n (2 ^ 63)
                      in if k = 0 \<or> uint fsize < k then None
                         else Some (fsize - word_of_int k, fsize - 1)))
              else if after = [] then
                (case signed_number before of
                   None \<Rightarrow> None
                 | Some n \<Rightarrow>
                     if u64_of n \<le> fsize - 1 then Some (u64_of n, fsize - 1) else None)
              else
                (case (signed_number before, signed_number after) of
                   (Some n, Some m) \<Rightarrow>
                     (let e = min (u64_of m) (fsize - 1)
                      in if u64_of n \<le> e then Some (u64_of n, e) else None)
                 | _ \<Rightarrow> None)))"

lemma strchr_split:
  "strchr s c = Some m \<Longrightarrow> s = take m s @ c # drop (m + 1) s \<and> c \<notin> set (take m s) \<and> m < length s"
proof (induction s arbitrary: m)
  case Nil
  then show ?case by simp
next
  case (Cons x xs)
  show ?case
  proof (cases "x = c")
    case True
    with Cons.prems show ?thesis by simp
  next
    case False
    with Cons.prems obtain k where k: "strchr xs c = Some k" "m = Suc k" by auto
    from Cons.IH [OF k(1)] False k(2) show ?thesis by simp
  qed
qed

lemma strchr_None: "strchr s c = None \<longleftrightarrow> c \<notin> set s"
  by (induction s) auto

lemma dec_val_nonneg_aux: "0 \<le> a \<Longrightarrow> list_all isdigit ds \<Longrightarrow> 0 \<le> foldl (\<lambda>a c. 10 * a + digit_val c) a ds"
  by (induction ds arbitrary: a) (auto simp: isdigit_def digit_val_def)

lemma dec_val_nonneg: "list_all isdigit ds \<Longrightarrow> 0 \<le> dec_val ds"
  by (simp add: dec_val_def dec_val_nonneg_aux)

lemma not_space_minus [simp]: "\<not> isspace CHR ''-''" "\<not> isdigit CHR ''-''" "\<not> isspace CHR ''+''" "\<not> isdigit CHR ''+''"
  by (simp_all add: isspace_def isdigit_def)

lemma takeWhile_digits_minus [simp]:
  "takeWhile isdigit (xs @ CHR ''-'' # ys) = takeWhile isdigit xs"
  by (induction xs) auto

lemma dropWhile_digits_minus [simp]:
  "dropWhile isdigit (xs @ CHR ''-'' # ys) = dropWhile isdigit xs @ CHR ''-'' # ys"
  by (induction xs) auto

text \<open>\<^verbatim>\<open>strtoll\<close> on a string that is a number as a whole.\<close>

lemma strtoll_whole:
  assumes "s \<noteq> []"
  shows "(snd (strtoll s) = length s \<longleftrightarrow> signed_number s \<noteq> None) \<and>
         (\<forall>v. signed_number s = Some v \<longrightarrow> strtoll s = (saturate v, length s))"
proof (cases "dropWhile isspace s")
  case Nil
  show ?thesis using assms by (simp add: strtoll_def signed_number_def Nil)
next
  case (Cons c t)
  define r2 where "r2 = (if c = CHR ''-'' \<or> c = CHR ''+'' then t else c # t)"
  have len: "length r2 \<le> length s"
  proof -
    have "length (dropWhile isspace s) \<le> length s" by (rule length_dropWhile_le)
    with Cons show ?thesis by (auto simp: r2_def)
  qed
  have st: "strtoll s = (if takeWhile isdigit r2 = [] then (0, 0)
       else (saturate (if c = CHR ''-'' then - dec_val (takeWhile isdigit r2) else dec_val (takeWhile isdigit r2)),
             length s - length (dropWhile isdigit r2)))"
    by (simp add: strtoll_def r2_def Let_def Cons)
  have sn: "signed_number s = (if c = CHR ''-'' then map_option uminus (unsigned_number r2) else unsigned_number r2)"
    by (simp add: signed_number_def r2_def Cons)
  show ?thesis
  proof (cases "r2 \<noteq> [] \<and> list_all isdigit r2")
    case True
    then have tw: "takeWhile isdigit r2 = r2" and dw: "dropWhile isdigit r2 = []"
      by (simp_all add: list_all_iff)
    show ?thesis using True by (simp add: st sn tw dw unsigned_number_def)
  next
    case False
    then have un: "unsigned_number r2 = None" by (auto simp: unsigned_number_def)
    have "snd (strtoll s) \<noteq> length s"
    proof (cases "takeWhile isdigit r2 = []")
      case True
      with st assms show ?thesis by simp
    next
      case nonempty: False
      then have "r2 \<noteq> []" by auto
      with False have "\<not> list_all isdigit r2" by simp
      then have "dropWhile isdigit r2 \<noteq> []" by (simp add: list_all_iff)
      then have pos: "0 < length (dropWhile isdigit r2)" by (rule length_greater_0_conv [THEN iffD2])
      have "snd (strtoll s) = length s - length (dropWhile isdigit r2)"
        using nonempty by (simp add: st)
      moreover have "0 < length s" using assms by simp
      ultimately show ?thesis using pos by arith
    qed
    with un sn show ?thesis by simp
  qed
qed


text \<open>\<^verbatim>\<open>strtoll\<close> on a string that goes on with a minus sign.\<close>

lemma strtoll_prefix:
  assumes "before \<noteq> []" and "CHR ''-'' \<notin> set before"
  shows "(snd (strtoll (before @ CHR ''-'' # after)) = length before \<longleftrightarrow> signed_number before \<noteq> None) \<and>
         (\<forall>v. signed_number before = Some v \<longrightarrow>
              strtoll (before @ CHR ''-'' # after) = (saturate v, length before))"
proof (cases "dropWhile isspace before")
  case Nil
  then have all: "\<forall>x\<in>set before. isspace x" by simp
  then have r1: "dropWhile isspace (before @ CHR ''-'' # after) = CHR ''-'' # after"
    by (simp add: dropWhile_append2)
  have sn: "signed_number before = None" by (simp add: signed_number_def Nil)
  have st: "strtoll (before @ CHR ''-'' # after) =
      (if takeWhile isdigit after = [] then (0, 0)
       else (saturate (- dec_val (takeWhile isdigit after)),
             length (before @ CHR ''-'' # after) - length (dropWhile isdigit after)))"
    by (simp add: strtoll_def Let_def r1)
  have "length (dropWhile isdigit after) \<le> length after" by (rule length_dropWhile_le)
  with st assms(1) have "snd (strtoll (before @ CHR ''-'' # after)) \<noteq> length before"
    by (cases before) (auto split: if_splits)
  with sn show ?thesis by simp
next
  case (Cons c t)
  then have cin: "c \<in> set before" and tsub: "set t \<subseteq> set before"
    by (metis list.set_intros(1) set_dropWhileD, metis list.set_intros(2) set_dropWhileD subsetI)
  with assms(2) have cm: "c \<noteq> CHR ''-''" and tm: "CHR ''-'' \<notin> set t" by auto
  from Cons have "\<exists>x\<in>set before. \<not> isspace x"
    by (metis dropWhile_eq_Nil_conv list.distinct(1))
  then obtain x where "x \<in> set before" "\<not> isspace x" by blast
  then have "dropWhile isspace (before @ CHR ''-'' # after) =
             dropWhile isspace before @ CHR ''-'' # after"
    by (rule dropWhile_append1)
  then have r1: "dropWhile isspace (before @ CHR ''-'' # after) = c # t @ CHR ''-'' # after"
    by (simp add: Cons)
  define r2 where "r2 = (if c = CHR ''+'' then t else c # t)"
  have r2m: "CHR ''-'' \<notin> set r2" using cm tm by (simp add: r2_def)
  have r1': "dropWhile isspace (before @ CHR ''-'' # after) =
             (if c = CHR ''+'' then c # r2 else r2) @ CHR ''-'' # after"
    by (simp add: r1 r2_def)
  have lenb: "length before = length (takeWhile isspace before) + length (c # t)"
    by (metis Cons length_append takeWhile_dropWhile_id)
  have len2: "length r2 \<le> length before" using lenb by (simp add: r2_def)
  have st: "strtoll (before @ CHR ''-'' # after) =
      (if takeWhile isdigit r2 = [] then (0, 0)
       else (saturate (dec_val (takeWhile isdigit r2)),
             length before - length (dropWhile isdigit r2)))"
  proof (cases "c = CHR ''+''")
    case True
    then show ?thesis by (simp add: strtoll_def Let_def r1')
  next
    case False
    with cm have "r2 = c # t" by (simp add: r2_def)
    with False cm show ?thesis
      by (cases r2) (simp_all add: strtoll_def Let_def r1')
  qed
  have sn: "signed_number before = unsigned_number r2"
    using cm by (simp add: signed_number_def Cons r2_def)
  show ?thesis
  proof (cases "r2 \<noteq> [] \<and> list_all isdigit r2")
    case True
    then have tw: "takeWhile isdigit r2 = r2" and dw: "dropWhile isdigit r2 = []"
      by (simp_all add: list_all_iff)
    show ?thesis using True by (simp add: st sn tw dw unsigned_number_def)
  next
    case False
    then have un: "unsigned_number r2 = None" by (auto simp: unsigned_number_def)
    have "snd (strtoll (before @ CHR ''-'' # after)) \<noteq> length before"
    proof (cases "takeWhile isdigit r2 = []")
      case True
      with st assms(1) show ?thesis by simp
    next
      case nonempty: False
      then have "r2 \<noteq> []" by auto
      with False have "\<not> list_all isdigit r2" by simp
      then have "dropWhile isdigit r2 \<noteq> []" by (simp add: list_all_iff)
      then have pos: "0 < length (dropWhile isdigit r2)" by (rule length_greater_0_conv [THEN iffD2])
      have "snd (strtoll (before @ CHR ''-'' # after)) = length before - length (dropWhile isdigit r2)"
        using nonempty by (simp add: st)
      moreover have "0 < length before" using assms(1) by simp
      ultimately show ?thesis using pos by arith
    qed
    with un sn show ?thesis by simp
  qed
qed

text \<open>\<^verbatim>\<open>strtoll\<close> on a string that starts with a minus sign.\<close>

lemma strtoll_minus:
  "strtoll (CHR ''-'' # after) =
     (if takeWhile isdigit after = [] then (0, 0)
      else (saturate (- dec_val (takeWhile isdigit after)), 1 + length (takeWhile isdigit after)))"
proof -
  have "length after = length (takeWhile isdigit after) + length (dropWhile isdigit after)"
    by (metis length_append takeWhile_dropWhile_id)
  then show ?thesis by (simp add: strtoll_def Let_def)
qed


lemma saturate_neg: "0 \<le> n \<Longrightarrow> saturate (- n) = - min n (2 ^ 63)"
  by (auto simp: saturate_def LLONG_MIN_def LLONG_MAX_def)

lemma word_of_saturate_neg_zero:
  "0 \<le> n \<Longrightarrow> (word_of_int (saturate (- n)) :: 64 word) = 0 \<longleftrightarrow> n = 0"
proof -
  assume n: "0 \<le> n"
  define k where "k = min n (2 ^ 63)"
  have k: "0 \<le> k" "k \<le> 2 ^ 63" "k = 0 \<longleftrightarrow> n = 0" using n by (auto simp: k_def)
  have "(word_of_int (- k) :: 64 word) = 0 \<longleftrightarrow> k mod 2 ^ 64 = 0"
    by (simp add: word_of_int_eq_0_iff take_bit_eq_mod dvd_eq_mod_eq_0)
  also have "k mod 2 ^ 64 = k"
    using k by (simp add: mod_pos_pos_trivial)
  finally show ?thesis using n k by (simp add: saturate_neg k_def)
qed

lemma suffix_start_le:
  fixes fsize :: "64 word"
  assumes "fsize \<noteq> 0" and "1 \<le> k" and "k \<le> 2 ^ 63"
  shows "fsize - word_of_int k \<le> fsize - 1 \<longleftrightarrow> k \<le> uint fsize"
proof -
  have kk: "uint (word_of_int k :: 64 word) = k"
    by (rule word_of_int_inverse [OF refl]) (use assms in simp_all)
  from assms(1) have "0 < fsize" by (simp add: word_gt_0)
  then have "uint (0 :: 64 word) < uint fsize" by (simp only: word_less_def)
  then have pos: "0 < uint fsize" by simp
  have lt: "uint fsize < 2 ^ 64" using uint_bounded [of fsize] by simp
  have e: "uint (fsize - 1) = uint fsize - 1"
    using pos by (simp add: uint_sub_if')
  have s: "uint (fsize - word_of_int k) =
             (if k \<le> uint fsize then uint fsize - k else uint fsize - k + 2 ^ 64)"
    by (simp add: uint_sub_if' kk)
  show ?thesis
  proof (cases "k \<le> uint fsize")
    case True
    with assms(2) show ?thesis by (simp add: word_le_def e s)
  next
    case False
    with lt assms(3) show ?thesis by (simp add: word_le_def e s)
  qed
qed

text \<open>The clamp of the end and the last test of \<^verbatim>\<open>parse_range_val\<close>.\<close>

definition range_checked :: "64 word \<Rightarrow> (64 word \<times> 64 word) option \<Rightarrow> (64 word \<times> 64 word) option" where
  "range_checked fsize r =
     (case r of
        None \<Rightarrow> None
      | Some (start, end0) \<Rightarrow>
          (let end = (if end0 > fsize - 1 then fsize - 1 else end0)
           in if start > end then None else Some (start, end)))"

lemma parse_range_val_checked:
  "strchr hdr CHR ''='' = Some eq \<Longrightarrow> strchr (drop (eq + 1) hdr) CHR ''-'' = Some m \<Longrightarrow>
   parse_range_val hdr fsize = Inr (range_checked fsize (range_numbers (drop (eq + 1) hdr) m fsize))"
  by (simp add: parse_range_val_def range_checked_def Let_def split: option.splits)

lemma range_suffix_mode:
  assumes "fsize \<noteq> 0"
  shows "range_checked fsize (range_numbers (CHR ''-'' # after) 0 fsize) =
         (case unsigned_number after of
            None \<Rightarrow> None
          | Some n \<Rightarrow>
              (let k = min n (2 ^ 63)
               in if k = 0 \<or> uint fsize < k then None
                  else Some (fsize - word_of_int k, fsize - 1)))"
proof (cases "after \<noteq> [] \<and> list_all isdigit after")
  case True
  then have tw: "takeWhile isdigit after = after" by (simp add: list_all_iff)
  from True have nn: "0 \<le> dec_val after" by (simp add: dec_val_nonneg)
  from True have un: "unsigned_number after = Some (dec_val after)"
    by (simp add: unsigned_number_def)
  let ?k = "min (dec_val after) (2 ^ 63)"
  have k: "0 \<le> ?k" "?k \<le> 2 ^ 63" "?k = 0 \<longleftrightarrow> dec_val after = 0" using nn by auto
  have st: "strtoll (CHR ''-'' # after) = (- ?k, length (CHR ''-'' # after))"
    using True nn by (simp add: strtoll_minus tw saturate_neg)
  show ?thesis
  proof (cases "dec_val after = 0")
    case z: True
    then show ?thesis
      by (simp add: range_numbers_def st un range_checked_def)
  next
    case nz: False
    with k have k1: "1 \<le> ?k" by simp
    from nz nn have wnz: "(word_of_int (- ?k) :: 64 word) \<noteq> 0"
      using word_of_saturate_neg_zero [OF nn] by (simp add: saturate_neg)
    from suffix_start_le [OF assms k1 k(2)]
    have cmp: "fsize - 1 < fsize - word_of_int ?k \<longleftrightarrow> uint fsize < ?k"
      by (simp add: not_le [symmetric])
    have num: "range_numbers (CHR ''-'' # after) 0 fsize = Some (fsize - word_of_int ?k, fsize - 1)"
      using wnz by (simp add: range_numbers_def st del: min_less_iff_conj)
    show ?thesis
      unfolding num un using k1 cmp
      by (simp add: range_checked_def Let_def del: min_less_iff_conj)
  qed
next
  case False
  then have un: "unsigned_number after = None" by (auto simp: unsigned_number_def)
  show ?thesis
  proof (cases "takeWhile isdigit after = []")
    case True
    then show ?thesis by (simp add: range_numbers_def strtoll_minus un range_checked_def)
  next
    case nonempty: False
    then have "after \<noteq> []" by auto
    with False have "\<not> list_all isdigit after" by simp
    then have "takeWhile isdigit after \<noteq> after" by (simp add: list_all_iff)
    then have "length (takeWhile isdigit after) \<noteq> length after"
      using takeWhile_eq_take [of isdigit after] by auto
    with nonempty show ?thesis
      by (simp add: range_numbers_def strtoll_minus un range_checked_def Let_def)
  qed
qed


lemma range_prefix_mode:
  assumes "before \<noteq> []" and "CHR ''-'' \<notin> set before"
  shows "range_checked fsize (range_numbers (before @ [CHR ''-'']) (length before) fsize) =
         (case signed_number before of
            None \<Rightarrow> None
          | Some n \<Rightarrow> if u64_of n \<le> fsize - 1 then Some (u64_of n, fsize - 1) else None)"
proof (cases "signed_number before")
  case None
  with strtoll_prefix [OF assms, of "[]"]
  have "snd (strtoll (before @ [CHR ''-''])) \<noteq> length before" by simp
  with assms(1) None show ?thesis
    by (auto simp: range_numbers_def range_checked_def split: prod.splits)
next
  case (Some n)
  with strtoll_prefix [OF assms, of "[]"]
  have "strtoll (before @ [CHR ''-'']) = (saturate n, length before)" by simp
  with assms(1) Some show ?thesis
    by (auto simp: range_numbers_def range_checked_def u64_of_def Let_def not_less)
qed

lemma range_both_mode:
  assumes "before \<noteq> []" and "CHR ''-'' \<notin> set before" and "after \<noteq> []"
  shows "range_checked fsize (range_numbers (before @ CHR ''-'' # after) (length before) fsize) =
         (case (signed_number before, signed_number after) of
            (Some n, Some m) \<Rightarrow>
              (let e = min (u64_of m) (fsize - 1)
               in if u64_of n \<le> e then Some (u64_of n, e) else None)
          | _ \<Rightarrow> None)"
proof (cases "signed_number before")
  case None
  with strtoll_prefix [OF assms(1,2), of after]
  have "snd (strtoll (before @ CHR ''-'' # after)) \<noteq> length before" by simp
  with assms None show ?thesis
    by (auto simp: range_numbers_def range_checked_def split: prod.splits)
next
  case (Some n)
  with strtoll_prefix [OF assms(1,2), of after]
  have st: "strtoll (before @ CHR ''-'' # after) = (saturate n, length before)" by simp
  show ?thesis
  proof (cases "signed_number after")
    case None
    with strtoll_whole [OF assms(3)]
    have "snd (strtoll after) \<noteq> length after" by simp
    with assms Some None st show ?thesis
      by (auto simp: range_numbers_def range_checked_def split: prod.splits)
  next
    case m: (Some m)
    with strtoll_whole [OF assms(3)]
    have "strtoll after = (saturate m, length after)" by simp
    with assms Some m st show ?thesis
      by (auto simp: range_numbers_def range_checked_def u64_of_def not_less min_def Let_def)
  qed
qed

lemma range_checked_single_range:
  assumes "fsize \<noteq> 0" and "strchr t CHR ''-'' = Some m"
  shows "range_checked fsize (range_numbers t m fsize) = single_range t fsize"
proof -
  define before where "before = take m t"
  define after where "after = drop (m + 1) t"
  from strchr_split [OF assms(2)]
  have t: "t = before @ CHR ''-'' # after" and nm: "CHR ''-'' \<notin> set before" and "m < length t"
    by (simp_all add: before_def after_def)
  then have m: "m = length before" by (simp add: before_def)
  have sr: "single_range t fsize =
      (if before = [] then
         (case unsigned_number after of
            None \<Rightarrow> None
          | Some n \<Rightarrow>
              (let k = min n (2 ^ 63)
               in if k = 0 \<or> uint fsize < k then None
                  else Some (fsize - word_of_int k, fsize - 1)))
       else if after = [] then
         (case signed_number before of
            None \<Rightarrow> None
          | Some n \<Rightarrow> if u64_of n \<le> fsize - 1 then Some (u64_of n, fsize - 1) else None)
       else
         (case (signed_number before, signed_number after) of
            (Some n, Some m) \<Rightarrow>
              (let e = min (u64_of m) (fsize - 1)
               in if u64_of n \<le> e then Some (u64_of n, e) else None)
          | _ \<Rightarrow> None))"
    by (simp add: single_range_def assms(2) before_def after_def Let_def)
  show ?thesis
  proof (cases "before = []")
    case True
    show ?thesis unfolding sr
      using True t m range_suffix_mode [OF assms(1), of after] by simp
  next
    case False
    show ?thesis
    proof (cases "after = []")
      case True
      show ?thesis unfolding sr
        using True False t m nm range_prefix_mode [of before fsize] by simp
    next
      case nonempty: False
      show ?thesis unfolding sr
        using nonempty False t m nm range_both_mode [of before after fsize] by simp
    qed
  qed
qed

lemma single_range_bounds:
  assumes "fsize \<noteq> 0" and "single_range t fsize = Some (s, e)"
  shows "s \<le> e \<and> e < fsize"
proof -
  from assms(1) have last: "fsize - 1 < fsize"
    by (simp add: word_gt_0 word_less_nat_alt unat_minus_one unat_gt_0)
  have "s \<le> e \<and> e \<le> fsize - 1"
  proof -
    from assms(2) obtain m where m: "strchr t CHR ''-'' = Some m"
      by (auto simp: single_range_def split: option.splits)
    show ?thesis
    proof (cases "take m t = []")
      case True
      with assms(2) m obtain n where
        un: "unsigned_number (drop (m + 1) t) = Some n"
        and k: "\<not> (min n (2 ^ 63) = 0 \<or> uint fsize < min n (2 ^ 63))"
        and se: "s = fsize - word_of_int (min n (2 ^ 63))" "e = fsize - 1"
        by (auto simp: single_range_def Let_def split: option.splits if_splits)
      from un have "0 \<le> n"
        by (auto simp: unsigned_number_def dec_val_nonneg split: if_splits)
      with k have "1 \<le> min n (2 ^ 63)" "min n (2 ^ 63) \<le> 2 ^ 63" "min n (2 ^ 63) \<le> uint fsize"
        by (auto simp: min_def split: if_splits)
      with suffix_start_le [OF assms(1), of "min n (2 ^ 63)"] se show ?thesis by simp
    next
      case False
      with assms(2) m show ?thesis
        by (auto simp: single_range_def Let_def split: option.splits if_splits)
    qed
  qed
  with last show ?thesis by auto
qed

text \<open>
  For every header value that contains \<^verbatim>\<open>'='\<close> and every file size other than 0 (the
  sizes that \<^verbatim>\<open>do_file_range\<close> passes for a file that has blocks),
  \<^verbatim>\<open>parse_range_val\<close> returns what \<open>single_range\<close> gives for the text after the first
  \<^verbatim>\<open>'='\<close>; on success \<open>start \<le> end < file_size\<close>; a value without \<^verbatim>\<open>'-'\<close> is
  rejected.
\<close>

lemma parse_range_val_single_range:
  assumes "fsize \<noteq> 0" and "strchr hdr CHR ''='' = Some eq"
  shows "parse_range_val hdr fsize = Inr (single_range (drop (eq + 1) hdr) fsize) \<and>
         (\<forall>start end. parse_range_val hdr fsize = Inr (Some (start, end)) \<longrightarrow>
            start \<le> end \<and> end < fsize) \<and>
         (CHR ''-'' \<notin> set (drop (eq + 1) hdr) \<longrightarrow> parse_range_val hdr fsize = Inr None)"
proof -
  have eq: "parse_range_val hdr fsize = Inr (single_range (drop (eq + 1) hdr) fsize)"
  proof (cases "strchr (drop (eq + 1) hdr) CHR ''-''")
    case None
    with assms(2) show ?thesis by (simp add: parse_range_val_def single_range_def)
  next
    case (Some m)
    from parse_range_val_checked [OF assms(2) Some] range_checked_single_range [OF assms(1) Some]
    show ?thesis by simp
  qed
  moreover have "CHR ''-'' \<notin> set (drop (eq + 1) hdr) \<longrightarrow> single_range (drop (eq + 1) hdr) fsize = None"
    by (simp add: single_range_def strchr_None [symmetric])
  ultimately show ?thesis using single_range_bounds [OF assms(1)] by auto
qed


lemmas single_range_defs = single_range_def unsigned_number_def signed_number_def u64_of_def
  isspace_def isdigit_def dec_val_def digit_val_def saturate_def LLONG_MAX_def LLONG_MIN_def

lemma single_range_examples:
  "parse_range_val ''bytes=150-199'' 250 = Inr (single_range ''150-199'' 250) \<and>
   single_range ''150-199'' 250 = Some (150, 199) \<and>
   single_range ''-10'' 250 = Some (240, 249) \<and>
   single_range ''240-'' 250 = Some (240, 249) \<and>
   single_range ''300-400'' 250 = None \<and>
   single_range ''-0'' 250 = None \<and>
   single_range ''0-5,10-20'' 250 = None \<and>
   single_range ''0-5x'' 250 = None"
proof -
  have "(250 :: 64 word) \<noteq> 0" by simp
  moreover have "strchr ''bytes=150-199'' CHR ''='' = Some 5" by simp
  ultimately have "parse_range_val ''bytes=150-199'' 250 =
      Inr (single_range (drop (5 + 1) ''bytes=150-199'') 250)"
    using parse_range_val_single_range [of 250 "''bytes=150-199''" 5] by blast
  then show ?thesis by (simp add: single_range_defs)
qed

text \<open>
  The three forms of the specification, \<^verbatim>\<open>-N\<close>, \<^verbatim>\<open>N-\<close> and \<^verbatim>\<open>N-M\<close>, for the text
  after the \<^verbatim>\<open>'='\<close>: \<open>N\<close> and \<open>M\<close> are decimal numbers, one digit or more.
\<close>

definition decimal_number :: "string \<Rightarrow> bool" where
  "decimal_number s \<longleftrightarrow> s \<noteq> [] \<and> list_all isdigit s"

definition single_range_form :: "string \<Rightarrow> bool" where
  "single_range_form t =
     (case strchr t CHR ''-'' of
        None \<Rightarrow> False
      | Some m \<Rightarrow>
          if m = 0 then decimal_number (drop 1 t)
          else decimal_number (take m t) \<and>
               (drop (m + 1) t = [] \<or> decimal_number (drop (m + 1) t)))"

text \<open>
  Claim C3 (the parser succeeds exactly on the forms \<^verbatim>\<open>-N\<close>, \<^verbatim>\<open>N-\<close> and \<^verbatim>\<open>N-M\<close>)
  against the code: the values \<^verbatim>\<open>5--3\<close> and \<^verbatim>\<open>5- 7\<close> are none of the three forms,
  and \<^verbatim>\<open>parse_range_val\<close> accepts them for the 250-byte file, the first as the range
  5 to 249. The numbers of \<^verbatim>\<open>N-\<close> and \<^verbatim>\<open>N-M\<close> are read by \<^verbatim>\<open>strtoll\<close>, and the code
  checks where each number ends, never its sign or its leading white space; the
  \<^verbatim>\<open>-N\<close> branch, whose number starts at the \<^verbatim>\<open>'-'\<close>, does reject \<^verbatim>\<open>- 5\<close> and \<^verbatim>\<open>-+5\<close>.
\<close>

theorem parse_range_val_accepts_signed_numbers:
  "single_range_form ''5--3'' = False \<and>
   parse_range_val ''bytes=5--3'' 250 = Inr (Some (5, 249)) \<and>
   single_range_form ''5- 7'' = False \<and>
   parse_range_val ''bytes=5- 7'' 250 = Inr (Some (5, 7)) \<and>
   parse_range_val ''bytes=- 5'' 250 = Inr None \<and>
   parse_range_val ''bytes=-+5'' 250 = Inr None"
  by (simp add: parser_defs single_range_form_def decimal_number_def)

section \<open>The byte-range engine\<close>

text \<open>
  The block that holds the first byte of the range, as \<^verbatim>\<open>get_start_block_handle\<close> finds
  it for a file whose blocks are all in the store.
\<close>

lemma unat_add_small:
  fixes a :: "64 word"
  shows "unat a + n < 2 ^ 64 \<Longrightarrow> unat (a + of_nat n) = unat a + n"
  by (simp add: unat_word_ariths unat_of_nat take_bit_eq_mod)

lemma stat_block_ok:
  "block_ok store b \<Longrightarrow> stat_block store b = Some (length (block_bytes store b))"
  by (auto simp: block_ok_def stat_block_def block_bytes_def split: option.splits)

lemma start_block_loop_finds:
  assumes "list_all (block_ok store) bs"
    and "unat tolsize + length (concat (map (block_bytes store) bs)) < 2 ^ 64"
    and "unat tolsize \<le> unat start"
    and "unat start < unat tolsize + length (concat (map (block_bytes store) bs))"
  shows "\<exists>k tol. start_block_loop store bs start tolsize i = Some (i + k, tol) \<and> k < length bs \<and>
           unat tol = unat tolsize + length (concat (map (block_bytes store) (take k bs))) \<and>
           unat tol \<le> unat start \<and> unat start < unat tol + length (block_bytes store (bs ! k))"
  using assms
proof (induction bs arbitrary: tolsize i)
  case Nil
  then show ?case by simp
next
  case (Cons b bs)
  let ?len = "length (block_bytes store b)"
  from Cons.prems(1) have ok: "block_ok store b" and oks: "list_all (block_ok store) bs" by simp_all
  from Cons.prems(2) have small: "unat tolsize + ?len < 2 ^ 64" by simp
  have next_tol: "unat (tolsize + of_nat ?len) = unat tolsize + ?len"
    by (rule unat_add_small [OF small])
  show ?case
  proof (cases "unat start < unat tolsize + ?len")
    case True
    then have "start < tolsize + of_nat ?len" by (simp add: word_less_nat_alt next_tol)
    with True Cons.prems(3) show ?thesis
      by (intro exI [of _ 0] exI [of _ tolsize]) (simp add: stat_block_ok [OF ok])
  next
    case False
    then have nl: "\<not> start < tolsize + of_nat ?len" by (simp add: word_less_nat_alt next_tol)
    from Cons.prems(2,4) False
    have "\<exists>k tol. start_block_loop store bs start (tolsize + of_nat ?len) (i + 1) = Some (i + 1 + k, tol) \<and>
           k < length bs \<and>
           unat tol = unat (tolsize + of_nat ?len) + length (concat (map (block_bytes store) (take k bs))) \<and>
           unat tol \<le> unat start \<and> unat start < unat tol + length (block_bytes store (bs ! k))"
      by (intro Cons.IH [OF oks]) (simp_all add: next_tol)
    then obtain k tol where
      k: "start_block_loop store bs start (tolsize + of_nat ?len) (i + 1) = Some (i + 1 + k, tol)"
      "k < length bs"
      "unat tol = unat (tolsize + of_nat ?len) + length (concat (map (block_bytes store) (take k bs)))"
      "unat tol \<le> unat start" "unat start < unat tol + length (block_bytes store (bs ! k))"
      by blast
    then show ?thesis
      using nl by (intro exI [of _ "Suc k"] exI [of _ tol]) (simp add: stat_block_ok [OF ok] next_tol)
  qed
qed


lemma sint_ucast_small:
  fixes w :: "64 word"
  assumes "unat w < 2 ^ 31"
  shows "sint (ucast w :: 32 word) = int (unat w)"
proof -
  have "unat (ucast w :: 32 word) = take_bit LENGTH(32) (unat w)"
    by (rule unsigned_ucast_eq)
  also have "\<dots> = unat w"
  proof (rule take_bit_nat_eq_self)
    from assms show "unat w < 2 ^ LENGTH(32)"
      by (rule less_trans) simp
  qed
  finally have "unat (ucast w :: 32 word) = unat w" .
  then have u: "uint (ucast w :: 32 word) = int (unat w)" by (simp only: uint_nat)
  from assms have "int (unat w) < int (2 ^ 31)" by (simp only: of_nat_less_iff)
  then have hi: "int (unat w) < 2 ^ 31" by simp
  have lo: "- (2 ^ 31) \<le> int (unat w)" by (rule order_trans [of _ 0]) simp_all
  have "signed_take_bit 31 (int (unat w)) = int (unat w)"
    by (rule signed_take_bit_int_eq_self [OF lo hi])
  then show ?thesis by (simp add: sint_uint u)
qed

lemma file_bytes_split:
  assumes "k < n_blocks f"
  shows "file_bytes store f =
         concat (map (block_bytes store) (take k (blk_sha1s f))) @
         block_bytes store (blk_sha1s f ! k) @
         concat (map (block_bytes store) (drop (k + 1) (blk_sha1s f)))"
proof -
  from assms have "blk_sha1s f = take k (blk_sha1s f) @ blk_sha1s f ! k # drop (k + 1) (blk_sha1s f)"
    by (simp add: n_blocks_def id_take_nth_drop [symmetric])
  then have "file_bytes store f =
      concat (map (block_bytes store) (take k (blk_sha1s f) @ blk_sha1s f ! k # drop (k + 1) (blk_sha1s f)))"
    by (simp add: file_bytes_def)
  then show ?thesis by simp
qed

lemma get_start_block_handle_ok:
  assumes ok: "blocks_ok store f" and small: "length (file_bytes store f) < 2 ^ 64"
    and st: "unat start < length (file_bytes store f)"
  shows "\<exists>h i. get_start_block_handle store f start = Some (h, i) \<and> i < n_blocks f \<and>
           h_readable h \<and> length (h_rest h) < 2 ^ 31 \<and>
           h_rest h @ concat (map (block_bytes store) (drop (i + 1) (blk_sha1s f))) =
             drop (unat start) (file_bytes store f)"
proof -
  from start_block_loop_finds [of store "blk_sha1s f" 0 start 0] ok small st
  obtain k tol where
    loop: "start_block_loop store (blk_sha1s f) start 0 0 = Some (k, tol)"
    and k: "k < length (blk_sha1s f)"
    and tol: "unat tol = length (concat (map (block_bytes store) (take k (blk_sha1s f))))"
    and lo: "unat tol \<le> unat start"
    and hi: "unat start < unat tol + length (block_bytes store (blk_sha1s f ! k))"
    by (auto simp: blocks_ok_def file_bytes_def)
  define blk where "blk = blk_sha1s f ! k"
  define off where "off = unat start - unat tol"
  from k have kn: "k < n_blocks f" by (simp add: n_blocks_def)
  from blocks_ok_nth [OF ok kn] obtain b where
    b: "store blk = Some b" "blk_readable b" "blk_statable b" "length (blk_data b) < 2 ^ 31"
    by (auto simp: block_ok_def blk_def split: option.splits)
  have bytes: "block_bytes store blk = blk_data b" by (simp add: block_bytes_def b)
  define h0 where "h0 = \<lparr>h_rest = blk_data b, h_size = length (blk_data b),
             h_readable = blk_readable b, h_statable = blk_statable b\<rparr>"
  have op: "open_block store blk = Some h0" by (simp add: open_block_def b h0_def)
  from hi have offlt: "off < length (blk_data b)"
    using lo by (simp add: off_def blk_def [symmetric] bytes)
  have le: "tol \<le> start" using lo by (simp add: word_le_nat_alt)
  have diff: "unat (start - tol) = off" using le by (simp add: unat_sub off_def)
  have split: "drop (unat start) (file_bytes store f) =
      drop off (blk_data b) @ concat (map (block_bytes store) (drop (k + 1) (blk_sha1s f)))"
  proof -
    have "unat start = unat tol + off" using lo by (simp add: off_def)
    then show ?thesis
      using offlt by (simp add: file_bytes_split [OF kn] blk_def [symmetric] bytes tol)
  qed
  show ?thesis
  proof (cases "start > tol")
    case True
    have "unat (start - tol) < 2 ^ 31" using diff offlt b(4) by simp
    then have len: "sint (ucast (start - tol) :: 32 word) = int off"
      using sint_ucast_small [of "start - tol"] diff by simp
    have rb: "read_block h0 (int off) = (int off, take off (blk_data b), h0\<lparr>h_rest := drop off (blk_data b)\<rparr>)"
      using offlt b by (simp add: read_block_def h0_def min_def)
    have conv: "(of_nat off :: 64 word) = start - tol"
      using diff [symmetric] by simp
    have "get_start_block_handle store f start = Some (h0\<lparr>h_rest := drop off (blk_data b)\<rparr>, k)"
      using True by (simp add: get_start_block_handle_def loop blk_def [symmetric] op len rb conv)
    with kn b split show ?thesis by (simp add: h0_def)
  next
    case False
    with le have "start = tol" by simp
    then have "off = 0" by (simp add: off_def)
    have "get_start_block_handle store f start = Some (h0, k)"
      using False by (simp add: get_start_block_handle_def loop blk_def [symmetric] op)
    with kn b split \<open>off = 0\<close> show ?thesis by (simp add: h0_def)
  qed
qed

text \<open>
  For a state of the range engine: the bytes from its position to the end of the file
  (\<open>fr_remaining\<close>) and the facts that hold between two calls of the callback
  (\<open>fr_inv\<close>).
\<close>

definition fr_remaining :: "block_store \<Rightarrow> range_data \<Rightarrow> string" where
  "fr_remaining store d =
     (case fr_handle d of
        Some h \<Rightarrow> h_rest h
      | None \<Rightarrow> block_bytes store (blk_sha1s (fr_file d) ! nat (fr_blk_idx d))) @
     concat (map (block_bytes store) (drop (nat (fr_blk_idx d) + 1) (blk_sha1s (fr_file d))))"

definition fr_inv :: "block_store \<Rightarrow> range_data \<Rightarrow> bool" where
  "fr_inv store d \<longleftrightarrow>
     0 \<le> fr_blk_idx d \<and> fr_blk_idx d < int (n_blocks (fr_file d)) \<and>
     blocks_ok store (fr_file d) \<and>
     (case fr_handle d of
        None \<Rightarrow> True
      | Some h \<Rightarrow> h_readable h \<and> length (h_rest h) < 2 ^ 31) \<and>
     0 < unat (fr_range_remain d) \<and>
     unat (fr_range_remain d) \<le> length (fr_remaining store d)"

lemma unat_sub_of_nat:
  fixes r :: "64 word"
  assumes "k \<le> unat r"
  shows "unat (r - of_nat k) = unat r - k"
proof -
  have r: "unat r < 2 ^ 64" using unsigned_less [of r, where 'a = nat] by simp
  with assms have k: "unat (of_nat k :: 64 word) = k"
    by (simp add: unat_of_nat take_bit_nat_eq_self)
  with assms have "(of_nat k :: 64 word) \<le> r" by (simp add: word_le_nat_alt)
  then show ?thesis by (simp add: unat_sub k)
qed

lemma range_bsize:
  "(if r < word_of_int BUFFER_SIZE then uint r else BUFFER_SIZE) = int (min (unat r) 65536)"
  for r :: "64 word"
proof -
  have "unat (65536 :: 64 word) = 65536" by simp
  then have "r < 65536 \<longleftrightarrow> unat r < 65536" by (simp only: word_less_nat_alt)
  then show ?thesis by (simp add: BUFFER_SIZE_def min_def)
qed

lemma write_file_range_pass_ok:
  assumes inv: "fr_inv store d"
  shows "(\<exists>d'. write_file_range_pass store d = Next_Block d' \<and> fr_inv store d' \<and>
              fr_remaining store d' = fr_remaining store d \<and>
              fr_range_remain d' = fr_range_remain d) \<or>
         (\<exists>bs d'. write_file_range_pass store d = Done (Sent bs d') \<and> fr_inv store d' \<and>
              take (unat (fr_range_remain d)) (fr_remaining store d) =
                bs @ take (unat (fr_range_remain d')) (fr_remaining store d')) \<or>
         (\<exists>sts rel. write_file_range_pass store d =
              Done (Finished (take (unat (fr_range_remain d)) (fr_remaining store d)) sts rel))"
proof -
  let ?blks = "blk_sha1s (fr_file d)"
  let ?i = "nat (fr_blk_idx d)"
  let ?R = "unat (fr_range_remain d)"
  define later where "later = concat (map (block_bytes store) (drop (?i + 1) ?blks))"
  from inv have idx: "0 \<le> fr_blk_idx d" "fr_blk_idx d < int (n_blocks (fr_file d))"
    and ok: "blocks_ok store (fr_file d)" and pos: "0 < ?R"
    and le: "?R \<le> length (fr_remaining store d)"
    by (simp_all add: fr_inv_def)
  from idx have i: "?i < n_blocks (fr_file d)" by simp
  have "\<exists>h. (case fr_handle d of Some handle \<Rightarrow> Some handle
                | None \<Rightarrow> open_block store (?blks ! ?i)) = Some h \<and>
             h_readable h \<and> length (h_rest h) < 2 ^ 31 \<and>
             fr_remaining store d = h_rest h @ later"
  proof (cases "fr_handle d")
    case (Some h)
    with inv show ?thesis by (simp add: fr_inv_def fr_remaining_def later_def)
  next
    case None
    from blocks_ok_nth [OF ok i] obtain b where
      b: "store (?blks ! ?i) = Some b" "blk_readable b" "length (blk_data b) < 2 ^ 31"
      by (auto simp: block_ok_def split: option.splits)
    with None show ?thesis
      by (simp add: open_block_def fr_remaining_def later_def block_bytes_def)
  qed
  then obtain h where
    op: "(case fr_handle d of Some handle \<Rightarrow> Some handle
          | None \<Rightarrow> open_block store (?blks ! ?i)) = Some h"
    and rd: "h_readable h" and hl: "length (h_rest h) < 2 ^ 31"
    and rem: "fr_remaining store d = h_rest h @ later"
    by blast
  define k where "k = min (min ?R 65536) (length (h_rest h))"
  have kR: "k \<le> ?R" by (simp add: k_def)
  have rb: "read_block h (int (min ?R 65536)) =
      (int k, take k (h_rest h), h\<lparr>h_rest := drop k (h_rest h)\<rparr>)"
    using rd by (simp add: read_block_def k_def min_def)
  have sub: "unat (fr_range_remain d - of_nat k) = ?R - k"
    by (rule unat_sub_of_nat [OF kR])
  have not_oob: "\<not> (fr_blk_idx d < 0 \<or> int (n_blocks (fr_file d)) \<le> fr_blk_idx d)"
    using idx by simp
  have pass: "write_file_range_pass store d =
      (let d1 = d\<lparr>fr_handle := Some (h\<lparr>h_rest := drop k (h_rest h)\<rparr>),
                   fr_range_remain := fr_range_remain d - of_nat k\<rparr>
       in if k = 0 then Next_Block (d1\<lparr>fr_handle := None, fr_blk_idx := fr_blk_idx d1 + 1\<rparr>)
          else if fr_range_remain d1 = 0 then
            Done (Finished (take k (h_rest h))
                   (if fr_start_off d1 + of_nat k \<ge> file_size (fr_file d1)
                    then range_stats d1 else [])
                   (free_send_file_range_data d1))
          else Done (Sent (take k (h_rest h)) d1))"
    unfolding write_file_range_pass_def
    by (simp only: not_oob if_False op option.case range_bsize rb prod.case Let_def)
       (simp add: Let_def)
  show ?thesis
  proof (cases "h_rest h = []")
    case True
    then have k0: "k = 0" by (simp add: k_def)
    from True rem le pos have "later \<noteq> []" by auto
    then have "drop (?i + 1) ?blks \<noteq> []" by (auto simp: later_def)
    then have i1: "?i + 1 < n_blocks (fr_file d)" by (simp add: n_blocks_def)
    define d' where "d' = d\<lparr>fr_handle := None, fr_range_remain := fr_range_remain d,
                             fr_blk_idx := fr_blk_idx d + 1\<rparr>"
    have nb: "write_file_range_pass store d = Next_Block d'"
      by (simp add: pass k0 d'_def)
    have idx': "nat (fr_blk_idx d + 1) = ?i + 1" using idx by simp
    have "fr_remaining store d' =
        block_bytes store (?blks ! (?i + 1)) @
        concat (map (block_bytes store) (drop (Suc (?i + 1)) ?blks))"
      by (simp add: fr_remaining_def d'_def idx')
    also have "\<dots> = later"
      using i1 by (simp add: later_def n_blocks_def Cons_nth_drop_Suc [symmetric])
    also have "later = fr_remaining store d"
      using True by (simp add: rem)
    finally have rem': "fr_remaining store d' = fr_remaining store d" .
    have "fr_inv store d'"
      using idx i1 ok pos le rem'
      by (simp add: fr_inv_def) (simp add: d'_def)
    with nb rem' show ?thesis by (auto simp: d'_def)
  next
    case False
    with pos have kpos: "0 < k" by (simp add: k_def)
    have kl: "k \<le> length (h_rest h)" by (simp add: k_def)
    define d1 where "d1 = d\<lparr>fr_handle := Some (h\<lparr>h_rest := drop k (h_rest h)\<rparr>),
                             fr_range_remain := fr_range_remain d - of_nat k\<rparr>"
    have zero: "fr_range_remain d1 = 0 \<longleftrightarrow> ?R = k"
      using sub kR by (simp add: d1_def unat_eq_0 [symmetric])
    show ?thesis
    proof (cases "?R = k")
      case True
      with kl have "take ?R (fr_remaining store d) = take k (h_rest h)" by (simp add: rem)
      moreover from True zero kpos have "\<exists>sts rel. write_file_range_pass store d =
          Done (Finished (take k (h_rest h)) sts rel)"
        by (simp add: pass d1_def [symmetric] Let_def)
      ultimately show ?thesis by simp
    next
      case neq: False
      with zero kpos have sent: "write_file_range_pass store d = Done (Sent (take k (h_rest h)) d1)"
        by (simp add: pass d1_def [symmetric] Let_def)
      have rem1: "fr_remaining store d1 = drop k (h_rest h) @ later"
        by (simp add: fr_remaining_def d1_def later_def)
      have r1: "unat (fr_range_remain d1) = ?R - k" by (simp add: d1_def sub)
      have a1: "length (h_rest h) - k < 2 ^ 31" using hl by arith
      have a2: "0 < ?R - k" using kR neq by arith
      from le have "?R \<le> length (h_rest h) + length later" by (simp add: rem)
      with kl have a3: "?R - k \<le> length (h_rest h) - k + length later" by arith
      have inv1: "fr_inv store d1"
        using idx ok rd a1 a2 a3
        by (simp add: fr_inv_def rem1 r1) (simp add: d1_def)
      have "take ?R (h_rest h @ later) =
            take k (h_rest h @ later) @ take (?R - k) (drop k (h_rest h @ later))"
        using kR take_add [of k "?R - k" "h_rest h @ later"] by simp
      with kl have "take ?R (fr_remaining store d) =
          take k (h_rest h) @ take (unat (fr_range_remain d1)) (fr_remaining store d1)"
        by (simp add: rem rem1 r1)
      with sent inv1 show ?thesis by blast
    qed
  qed
qed

lemma write_file_range_loop_ok:
  "fr_inv store d \<Longrightarrow>
     (\<exists>bs d'. write_file_range_loop store d = Sent bs d' \<and> fr_inv store d' \<and>
          take (unat (fr_range_remain d)) (fr_remaining store d) =
            bs @ take (unat (fr_range_remain d')) (fr_remaining store d')) \<or>
     (\<exists>sts rel. write_file_range_loop store d =
          Finished (take (unat (fr_range_remain d)) (fr_remaining store d)) sts rel)"
proof (induction store d rule: write_file_range_loop.induct)
  case (1 store d)
  from write_file_range_pass_ok [OF "1.prems"] show ?case
  proof (elim disjE exE conjE)
    fix d'
    assume nb: "write_file_range_pass store d = Next_Block d'" and inv': "fr_inv store d'"
      and same: "fr_remaining store d' = fr_remaining store d"
        "fr_range_remain d' = fr_range_remain d"
    have "write_file_range_loop store d = write_file_range_loop store d'"
      by (subst write_file_range_loop.simps) (simp add: nb)
    with "1.IH" [OF nb inv'] same show ?thesis by simp
  next
    fix bs d'
    assume "write_file_range_pass store d = Done (Sent bs d')" "fr_inv store d'"
      "take (unat (fr_range_remain d)) (fr_remaining store d) =
         bs @ take (unat (fr_range_remain d')) (fr_remaining store d')"
    then show ?thesis by (subst write_file_range_loop.simps) simp
  next
    fix sts rel
    assume "write_file_range_pass store d =
        Done (Finished (take (unat (fr_range_remain d)) (fr_remaining store d)) sts rel)"
    then show ?thesis by (subst write_file_range_loop.simps) simp
  qed
qed

lemma fr_inv_cb:
  "fr_inv store d \<Longrightarrow> write_file_range_cb store d = write_file_range_loop store d"
  by (simp add: write_file_range_cb_def fr_inv_def)

lemma run_file_range_ok:
  "fr_inv store d \<Longrightarrow>
     st_body (run_file_range store d) = take (unat (fr_range_remain d)) (fr_remaining store d) \<and>
     st_end (run_file_range store d) = Reply_End"
proof (induction store d rule: run_file_range.induct)
  case (1 store d)
  from write_file_range_loop_ok [OF "1.prems"] show ?case
  proof (elim disjE exE conjE)
    fix bs d'
    assume sent: "write_file_range_loop store d = Sent bs d'" and inv': "fr_inv store d'"
      and body: "take (unat (fr_range_remain d)) (fr_remaining store d) =
         bs @ take (unat (fr_range_remain d')) (fr_remaining store d')"
    from sent have cb: "write_file_range_cb store d = Sent bs d'"
      by (simp add: fr_inv_cb [OF "1.prems"])
    have run: "run_file_range store d = prepend_body bs (run_file_range store d')"
      by (subst run_file_range.simps) (simp add: cb)
    from "1.IH" [OF cb inv'] body show ?thesis
      by (simp add: run prepend_body_def)
  next
    fix sts rel
    assume "write_file_range_loop store d =
        Finished (take (unat (fr_range_remain d)) (fr_remaining store d)) sts rel"
    then have cb: "write_file_range_cb store d =
        Finished (take (unat (fr_range_remain d)) (fr_remaining store d)) sts rel"
      by (simp add: fr_inv_cb [OF "1.prems"])
    show ?thesis
      by (subst (1 2) run_file_range.simps) (simp add: cb step_result_def)
  qed
qed

text \<open>The first call of the callback, with the block index \<open>-1\<close> that \<^verbatim>\<open>do_file_range\<close> sets.\<close>

lemma run_file_range_start:
  assumes ok: "blocks_ok store (fr_file d)"
    and size: "unat (file_size (fr_file d)) = length (file_bytes store (fr_file d))"
    and first: "fr_blk_idx d = - 1"
    and le: "fr_start_off d \<le> e" and lt: "e < file_size (fr_file d)"
    and rr: "fr_range_remain d = e - fr_start_off d + 1"
  shows "st_body (run_file_range store d) =
           take (unat e - unat (fr_start_off d) + 1)
             (drop (unat (fr_start_off d)) (file_bytes store (fr_file d))) \<and>
         st_end (run_file_range store d) = Reply_End"
proof -
  let ?f = "fr_file d"
  let ?s = "fr_start_off d"
  have total: "length (file_bytes store ?f) < 2 ^ 64"
    using unsigned_less [of "file_size ?f", where 'a = nat] by (simp add: size [symmetric])
  from le lt have s_lt: "unat ?s \<le> unat e" "unat e < length (file_bytes store ?f)"
    by (simp_all add: word_le_nat_alt word_less_nat_alt size)
  then have start: "unat ?s < length (file_bytes store ?f)" by simp
  from get_start_block_handle_ok [OF ok total start] obtain h i where
    gs: "get_start_block_handle store ?f ?s = Some (h, i)" and i: "i < n_blocks ?f"
    and rd: "h_readable h" and hl: "length (h_rest h) < 2 ^ 31"
    and rest: "h_rest h @ concat (map (block_bytes store) (drop (i + 1) (blk_sha1s ?f))) =
               drop (unat ?s) (file_bytes store ?f)"
    by blast
  define d1 where "d1 = d\<lparr>fr_handle := Some h, fr_blk_idx := int i\<rparr>"
  have rem: "fr_remaining store d1 = drop (unat ?s) (file_bytes store ?f)"
    using rest by (simp add: fr_remaining_def d1_def)
  have "unat (e - ?s) = unat e - unat ?s" using le by (simp add: unat_sub)
  moreover have "unat e - unat ?s + 1 < 2 ^ 64" using s_lt total by arith
  ultimately have "unat (e - ?s + 1) = unat e - unat ?s + 1"
    using unat_add_small [of "e - ?s" 1] by simp
  then have R: "unat (fr_range_remain d1) = unat e - unat ?s + 1"
    by (simp add: d1_def rr)
  have inv: "fr_inv store d1"
    using i ok rd hl s_lt
    by (simp add: fr_inv_def rem R) (simp add: d1_def)
  have cb0: "write_file_range_cb store d = write_file_range_loop store d1"
    by (simp add: write_file_range_cb_def first gs d1_def)
  then have "write_file_range_cb store d = write_file_range_cb store d1"
    by (simp add: fr_inv_cb [OF inv])
  then have "run_file_range store d = run_file_range store d1"
    by (subst (1 2) run_file_range.simps) simp
  with run_file_range_ok [OF inv] show ?thesis
    by (simp add: rem R)
qed

lemma do_file_range_rc:
  "get_seafile e (store_id repo) (version repo) file_id = Some f \<Longrightarrow>
   do_file_range e req resp repo file_id filename operation ranges user = Inr h \<Longrightarrow> h_rc h = 0"
  by (auto simp: do_file_range_def split: if_splits sum.splits option.splits)

lemma access_cb_range:
  assumes path: "req_path req = ''/files/'' @ token @ ''/'' @ name"
      "CHR ''/'' \<notin> set token" "CHR ''/'' \<notin> set name"
    and nocond: "evhtp_kv_find (headers_in req) ''If-Modified-Since'' = None"
    and range: "evhtp_kv_find (headers_in req) ''Range'' = Some ranges"
    and tok: "query_access_token e token = Some wa"
    and op: "wa_op wa = ''view'' \<or> wa_op wa = ''download'' \<or> wa_op wa = ''download-link''"
    and repo: "get_repo e (wa_repo_id wa) = Some repo"
    and plain: "encrypted repo = False"
    and obj: "object_exists e (store_id repo) (version repo) (wa_obj_id wa)"
    and fl: "get_seafile e (store_id repo) (version repo) (wa_obj_id wa) = Some f"
  shows "access_cb e req =
         do_file_range e req (cache_headers e) repo (wa_obj_id wa) name (wa_op wa) ranges
           (wa_username wa)"
proof -
  have parts: "g_strsplit (drop (Suc 0) (req_path req)) CHR ''/'' = [''files'', token, name]"
    using g_strsplit_route [of "''files''" token name] path by simp
  have cached: "can_use_cached_content e req no_response = (False, cache_headers e)"
    using nocond by (simp add: can_use_cached_content_def cache_headers_def)
  have "access_cb_repo e req (cache_headers e) repo wa name (Some ranges) =
        do_file_range e req (cache_headers e) repo (wa_obj_id wa) name (wa_op wa) ranges
           (wa_username wa)"
    using plain obj
    by (auto simp: access_cb_repo_def Let_def files_reply_def do_file_range_rc [OF fl]
          split: sum.splits)
  then show ?thesis
    using op tok repo by (auto simp: access_cb_def parts cached Let_def range)
qed

lemma unat_range_length:
  fixes s e m :: "64 word"
  assumes "s \<le> e" and "e < m"
  shows "unat (e - s + 1) = unat e - unat s + 1"
proof -
  have "unat m < 2 ^ 64" using unsigned_less [of m, where 'a = nat] by simp
  moreover from assms have "unat e < unat m" by (simp add: word_less_nat_alt)
  moreover from assms have sub: "unat (e - s) = unat e - unat s" by (simp add: unat_sub)
  ultimately have "unat (e - s) + 1 < 2 ^ 64" by arith
  from unat_add_small [OF this] sub show ?thesis by simp
qed

text \<open>The engine state that \<^verbatim>\<open>do_file_range\<close> installs.\<close>

definition range_start ::
  "seaf_repo \<Rightarrow> seafile \<Rightarrow> 64 word \<Rightarrow> 64 word \<Rightarrow> string \<Rightarrow> string \<Rightarrow> range_data" where
  "range_start repo file start end user operation =
     \<lparr>fr_file = file, fr_handle = None, fr_blk_idx = - 1,
      fr_start_off = start, fr_range_remain = end - start + 1,
      fr_store_id = take 36 (store_id repo), fr_repo_version = version repo,
      fr_user = user, fr_token_type = operation\<rparr>"

lemma do_file_range_streams:
  assumes "get_seafile e (store_id repo) (version repo) file_id = Some f"
    and "blk_sha1s f \<noteq> []"
    and "parse_range_val ranges (file_size f) = Inr (Some (start, end))"
  shows "do_file_range e req resp repo file_id filename operation ranges user =
         Inr \<lparr>h_rc = 0,
              h_resp = evhtp_send_reply_start EVHTP_RES_PARTIAL
                         (do_file_range_headers req f filename operation start end resp),
              h_engine = Some (Range_Engine (range_start repo f start end user operation)),
              h_held = []\<rparr>"
  using assms by (simp add: do_file_range_def n_blocks_def range_start_def)

lemma range_headers_of_do_file_range:
  "evhtp_kv_find (headers_out (do_file_range_headers req f filename operation start end
      (cache_headers e))) ''Content-Range'' =
     Some (''bytes'' @ '' '' @ show_u64 start @ ''-'' @ show_u64 end @ ''/'' @
           show_u64 (file_size f))"
  "evhtp_kv_find (headers_out (do_file_range_headers req f filename operation start end
      (cache_headers e))) ''Content-Length'' = Some (show_u64 (end - start + 1))"
  by (simp_all add: do_file_range_headers_def set_resp_disposition_def cache_headers_def
        no_response_def Let_def find_added_header strcaseeq_def g_ascii_tolower_def)

text \<open>
  Claim C2: a request to \<^verbatim>\<open>/files/<token>/<name>\<close> with a \<^verbatim>\<open>Range\<close> header, for a file in an
  unencrypted repository (operation view, download or download-link, no
  \<^verbatim>\<open>If-Modified-Since\<close> header, every block in the store and readable, \<open>file_size\<close>
  equal to the length of the blocks one after the other), whose header value
  \<^verbatim>\<open>parse_range_val\<close> reads as \<open>(start, end)\<close> with \<open>start \<le> end < file_size\<close>, is answered
  with status 206, \<^verbatim>\<open>Content-Range: bytes start-end/file_size\<close>,
  \<^verbatim>\<open>Content-Length: end - start + 1\<close> and a body equal to the bytes \<open>start\<close> to \<open>end\<close>
  of the blocks of the file one after the other; the stream ends with the reply's end.
\<close>

theorem byte_range_delivery:
  assumes path: "req_path req = ''/files/'' @ token @ ''/'' @ name"
      "CHR ''/'' \<notin> set token" "CHR ''/'' \<notin> set name"
    and nocond: "evhtp_kv_find (headers_in req) ''If-Modified-Since'' = None"
    and range: "evhtp_kv_find (headers_in req) ''Range'' = Some ranges"
    and tok: "query_access_token e token = Some wa"
    and op: "wa_op wa = ''view'' \<or> wa_op wa = ''download'' \<or> wa_op wa = ''download-link''"
    and repo: "get_repo e (wa_repo_id wa) = Some repo"
    and plain: "encrypted repo = False"
    and sid: "length (store_id repo) \<le> 36"
    and obj: "object_exists e (store_id repo) (version repo) (wa_obj_id wa)"
    and fl: "get_seafile e (store_id repo) (version repo) (wa_obj_id wa) = Some f"
    and blocks: "blocks_ok (block_mgr e (store_id repo) (version repo)) f"
    and size: "unat (file_size f) =
               length (file_bytes (block_mgr e (store_id repo) (version repo)) f)"
    and parsed: "parse_range_val ranges (file_size f) = Inr (Some (start, end))"
    and valid: "start \<le> end" "end < file_size f"
  shows "map_sum id (\<lambda>x. (ex_status x, evhtp_kv_find (ex_headers x) ''Content-Range'',
                            evhtp_kv_find (ex_headers x) ''Content-Length'', ex_body x, ex_end x))
           (serve_files ciph e req) =
         Inr (Some 206,
              Some (''bytes '' @ show_nat (unat start) @ ''-'' @ show_nat (unat end) @ ''/'' @
                    show_nat (unat (file_size f))),
              Some (show_nat (unat end - unat start + 1)),
              take (unat end - unat start + 1)
                (drop (unat start) (file_bytes (block_mgr e (store_id repo) (version repo)) f)),
              Reply_End)"
proof -
  let ?store = "block_mgr e (store_id repo) (version repo)"
  let ?d = "range_start repo f start end (wa_username wa) (wa_op wa)"
  from valid have "0 < unat (file_size f)" by (simp add: word_less_nat_alt)
  then have nonempty: "blk_sha1s f \<noteq> []" by (auto simp: size file_bytes_def)
  have acc: "access_cb e req =
      (Inr \<lparr>h_rc = 0,
            h_resp = evhtp_send_reply_start EVHTP_RES_PARTIAL
                       (do_file_range_headers req f name (wa_op wa) start end (cache_headers e)),
            h_engine = Some (Range_Engine ?d), h_held = []\<rparr> :: fault + 'a files_engine handled)"
    by (simp add: access_cb_range [OF path nocond range tok op repo plain obj fl]
          do_file_range_streams [OF fl nonempty parsed])
  have st: "fr_store_id ?d = store_id repo" "fr_repo_version ?d = version repo"
    using sid by (simp_all add: range_start_def)
  have len: "unat (end - start + 1) = unat end - unat start + 1"
    by (rule unat_range_length [OF valid])
  have run: "st_body (run_file_range ?store ?d) =
        take (unat end - unat start + 1) (drop (unat start) (file_bytes ?store f)) \<and>
      st_end (run_file_range ?store ?d) = Reply_End"
    using run_file_range_start [of ?store ?d "end"] blocks size valid
    by (simp add: range_start_def)
  have buf: "buffer_out (do_file_range_headers req f name (wa_op wa) start end (cache_headers e)) = []"
    by (simp add: do_file_range_headers_def set_resp_disposition_def cache_headers_def
          no_response_def add_header_def Let_def)
  show ?thesis
    by (simp add: serve_files_def acc exchange_of_def Let_def run_engine_def st run
          reply_code_def evhtp_send_reply_start_def EVHTP_RES_PARTIAL_def buf
          range_headers_of_do_file_range [unfolded headers_out_send_reply] show_u64_def len)
qed

theorem byte_range_delivery_witness:
  "map_sum id (\<lambda>x. (ex_status x, evhtp_kv_find (ex_headers x) ''Content-Range'',
                     evhtp_kv_find (ex_headers x) ''Content-Length'', ex_body x, ex_end x))
     (serve_files no_cipher hello_env
        (get_request ''/files/T/hello.txt'' [(''Range'', ''bytes=150-199'')])) =
   Inr (Some 206, Some ''bytes 150-199/250'', Some ''50'', replicate 50 CHR ''b'', Reply_End)"
proof -
  let ?req = "get_request ''/files/T/hello.txt'' [(''Range'', ''bytes=150-199'')]"
  let ?wa = "\<lparr>wa_repo_id = ''repo-1'', wa_obj_id = ''file-1'', wa_op = ''download'',
              wa_username = ''alice''\<rparr>"
  have path: "req_path ?req = ''/files/'' @ ''T'' @ ''/'' @ ''hello.txt''"
    "CHR ''/'' \<notin> set ''T''" "CHR ''/'' \<notin> set ''hello.txt''"
    by (simp_all add: get_request_def)
  have nocond: "evhtp_kv_find (headers_in ?req) ''If-Modified-Since'' = None"
    by (simp add: get_request_def string_defs)
  have range: "evhtp_kv_find (headers_in ?req) ''Range'' = Some ''bytes=150-199''"
    by (simp add: get_request_def string_defs)
  have tok: "query_access_token hello_env ''T'' = Some ?wa"
    by (simp add: hello_env_def hello_token_def)
  have op: "wa_op ?wa = ''view'' \<or> wa_op ?wa = ''download'' \<or> wa_op ?wa = ''download-link''"
    by simp
  have repo: "get_repo hello_env (wa_repo_id ?wa) = Some hello_repo"
    by (simp add: hello_env_def)
  have plain: "encrypted hello_repo = False" by (simp add: hello_repo_def)
  have sid: "length (store_id hello_repo) \<le> 36" by (simp add: hello_repo_def)
  have obj: "object_exists hello_env (store_id hello_repo) (version hello_repo) (wa_obj_id ?wa)"
    by (simp add: hello_env_def)
  have fl: "get_seafile hello_env (store_id hello_repo) (version hello_repo) (wa_obj_id ?wa) =
            Some hello_file"
    by (simp add: hello_env_def)
  have st: "block_mgr hello_env (store_id hello_repo) (version hello_repo) = hello_store"
    by (simp add: hello_env_def)
  have blocks: "blocks_ok (block_mgr hello_env (store_id hello_repo) (version hello_repo)) hello_file"
    unfolding st
    by (simp add: blocks_ok_def block_ok_def hello_file_def hello_store_def stored_def
          blk1_def blk2_def blk3_def)
  have bytes: "file_bytes hello_store hello_file =
      replicate 100 CHR ''a'' @ replicate 100 CHR ''b'' @ replicate 50 CHR ''c''"
    by (simp add: file_bytes_def block_bytes_def hello_file_def hello_store_def stored_def
          blk1_def blk2_def blk3_def)
  have size: "unat (file_size hello_file) =
      length (file_bytes (block_mgr hello_env (store_id hello_repo) (version hello_repo)) hello_file)"
    unfolding st bytes by (simp add: hello_file_def)
  have parsed: "parse_range_val ''bytes=150-199'' (file_size hello_file) = Inr (Some (150, 199))"
    by (simp add: hello_file_def parser_defs)
  have valid: "(150 :: 64 word) \<le> 199" "(199 :: 64 word) < file_size hello_file"
    by (simp_all add: hello_file_def)
  have nums: "show_nat 150 = ''150''" "show_nat 199 = ''199''" "show_nat 250 = ''250''"
    "show_nat 50 = ''50''"
    by (simp_all add: show_nat.simps)
  have body: "take 50 (drop 150 (replicate 100 CHR ''a'' @ replicate 100 CHR ''b'' @
      replicate 50 CHR ''c'')) = replicate 50 CHR ''b''"
    by simp
  from byte_range_delivery [of ?req "''T''" "''hello.txt''" "''bytes=150-199''" hello_env ?wa
      hello_repo hello_file 150 199 no_cipher,
      OF path nocond range tok op repo plain sid obj fl blocks size parsed valid]
  show ?thesis
    unfolding st bytes by (simp add: hello_file_def nums body)
qed

text \<open>
  Claim C4 (a statistics event is sent whenever the range ends at the last byte of the
  file, however many blocks and reads it spans) against the code: the range
  \<^verbatim>\<open>150-249\<close> of the 250-byte file ends at its last byte and is read in two pieces,
  from the second and the third block; the test \<^verbatim>\<open>start_off + n >= file_size\<close> adds the
  length of the last piece only, and no event is sent.
\<close>

theorem range_to_last_byte_without_statistics:
  "map_sum id (\<lambda>x. (ex_status x, evhtp_kv_find (ex_headers x) ''Content-Range'', ex_body x,
                     ex_end x, ex_stats x))
     (serve_files ciph hello_env
        (get_request ''/files/T/hello.txt'' [(''Range'', ''bytes=150-249'')]))
   = Inr (Some 206, Some ''bytes 150-249/250'',
          replicate 50 CHR ''b'' @ replicate 50 CHR ''c'', Reply_End, [])"
  by (simp add: handler_defs scenario_defs string_defs status_defs engine_defs parser_defs)

end
